theory Spec2Isabelle
  imports Main
begin

section \<open>pprofdump: fetching pprof profiles into a gzipped tar archive\<close>

text \<open>
  A shallow embedding of \<^verbatim>\<open>main.go\<close>. Go strings are byte sequences; a HOL
  \<^typ>\<open>char\<close> is one byte, so a Go string is a \<^typ>\<open>string\<close>. The collaborators
  of the program (net/http, os, archive/tar, compress/gzip, net/url, path) are not part of
  the repository: their answers are parameters of the model (the record \<open>env\<close> below),
  and what the program does with them is state passing over the record \<open>state\<close>. The
  functions of the libraries strings and flag that decide what the program computes
  (\<^verbatim>\<open>Split\<close>, \<^verbatim>\<open>Join\<close>, the parsing of the flags) are written out. The goroutines
  of \<open>Run\<close> take their steps in the order that a schedule gives, and every property of
  \<open>Run\<close> is proved for all schedules.
\<close>

subsection \<open>Strings\<close>

text \<open>
  \<^verbatim>\<open>strings.Split(s, sep)\<close> with a one-byte separator, as the library's
  \<^verbatim>\<open>genSplit\<close> computes it: look for the next separator with \<^verbatim>\<open>Index\<close>,
  cut the part before it, go on behind it; what is left when no separator is found is the
  last element. The result is never empty.
\<close>

fun IndexByte :: "string \<Rightarrow> char \<Rightarrow> nat option" where
  "IndexByte [] c = None"
| "IndexByte (x # xs) c = (if x = c then Some 0 else map_option Suc (IndexByte xs c))"

lemma IndexByte_Some_less: "IndexByte s c = Some m \<Longrightarrow> m < length s"
  by (induction s arbitrary: m) (auto split: if_splits)

function Split :: "string \<Rightarrow> char \<Rightarrow> string list" where
  "Split s sep =
     (case IndexByte s sep of
        None \<Rightarrow> [s]
      | Some m \<Rightarrow> take m s # Split (drop (m + 1) s) sep)"
  by pat_completeness auto
termination
  by (relation "measure (\<lambda>(s, sep). length s)") (auto dest: IndexByte_Some_less)

declare Split.simps [simp del]

text \<open>\<^verbatim>\<open>strings.Join(a, sep)\<close>.\<close>

fun Join :: "string list \<Rightarrow> string \<Rightarrow> string" where
  "Join [] sep = []"
| "Join [x] sep = x"
| "Join (x # y # ys) sep = x @ sep @ Join (y # ys) sep"

text \<open>The verb \<^verbatim>\<open>%d\<close> of \<^verbatim>\<open>Printf\<close> on an \<^verbatim>\<open>int\<close>: decimal, with a sign.\<close>

definition digit :: "nat \<Rightarrow> char" where
  "digit d = ''0123456789'' ! d"

function utoa :: "nat \<Rightarrow> string" where
  "utoa n = (if n < 10 then [digit n] else utoa (n div 10) @ [digit (n mod 10)])"
  by pat_completeness auto
termination
  by (relation "measure id") auto

declare utoa.simps [simp del]

definition Itoa :: "int \<Rightarrow> string" where
  "Itoa i = (if i < 0 then CHR ''-'' # utoa (nat (- i)) else utoa (nat i))"

subsection \<open>ParseProfileName\<close>

text \<open>
  \<^verbatim>\<open>
  func ParseProfileName(name string) (segment, query string) {
      a := strings.Split(name, "?")
      if len(a) == 1 { return a[0], "" }
      return a[0], a[1]
  }\<close>
  The list \<open>a\<close> has at least one element, and two when its length is not one, so both
  index expressions are in range.
\<close>

definition ParseProfileName :: "string \<Rightarrow> string \<times> string" where
  "ParseProfileName nm =
     (let a = Split nm CHR ''?'' in
      if length a = 1 then (a ! 0, []) else (a ! 0, a ! 1))"

subsection \<open>The archive file name\<close>

text \<open>
  \<^verbatim>\<open>regexp.MustCompile(`[^a-zA-Z0-9_-]+`).ReplaceAllString(name, "-")\<close>.
  \<open>allowed\<close> is the character class under the negation. The expression matches
  every maximal run of characters outside the class, leftmost first, and each match is
  replaced by the replacement text (which holds no \<^verbatim>\<open>$\<close>, so it is taken as it
  is). The regexp engine reads UTF-8 runes; every byte of a rune of several bytes, and
  every byte that is no valid UTF-8, is outside the class, so the runs of runes outside the
  class are the runs of bytes outside the class.
\<close>

definition allowed :: "char \<Rightarrow> bool" where
  "allowed c =
     (c \<in> set ''abcdefghijklmnopqrstuvwxyzABCDEFGHIJKLMNOPQRSTUVWXYZ0123456789_-'')"

function ReplaceAllString :: "string \<Rightarrow> string \<Rightarrow> string" where
  "ReplaceAllString [] repl = []"
| "ReplaceAllString (c # cs) repl =
     (if allowed c then c # ReplaceAllString cs repl
      else repl @ ReplaceAllString (dropWhile (\<lambda>x. \<not> allowed x) cs) repl)"
  by pat_completeness auto
termination
  by (relation "measure (\<lambda>(s, repl). length s)")
     (auto simp: length_dropWhile_le less_Suc_eq_le)

definition filename_of :: "string \<Rightarrow> string" where
  "filename_of nm = ReplaceAllString nm ''-''"

subsection \<open>Errors\<close>

text \<open>
  Go compares errors by identity: \<^verbatim>\<open>err == flag.ErrHelp\<close> holds for that one value
  only, whatever the text of another error. The constructors keep the origins apart.
\<close>

datatype error =
    ErrHelp
  | ErrorNew string
  | FlagError string
  | External string

text \<open>\<^verbatim>\<open>err.Error()\<close>, which \<^verbatim>\<open>%s\<close> and \<^verbatim>\<open>Fprintln\<close> print.\<close>

fun Error :: "error \<Rightarrow> string" where
  "Error ErrHelp = ''flag: help requested''"
| "Error (ErrorNew t) = t"
| "Error (FlagError t) = t"
| "Error (External t) = t"

subsection \<open>Data\<close>

text \<open>\<^verbatim>\<open>url.URL\<close>, with the fields the program reads or writes.\<close>

record url =
  Scheme :: string
  Host :: string
  Path :: string
  RawQuery :: string

text \<open>
  The answer of \<^verbatim>\<open>http.Get\<close>: the status code and the body stream, given by the
  bytes it delivers and by how reading it ends (\<open>None\<close>: end of file; \<open>Some e\<close>:
  the read fails with \<open>e\<close> behind these bytes).
\<close>

record response =
  StatusCode :: int
  Body_data :: string
  Body_err :: "string option"

definition StatusOK :: int where
  "StatusOK = 200"

text \<open>
  An open response body is an object shared by the goroutine that fetched it and the one
  that archives it, so bodies live in a store (a list; the address is the index) with the
  number of bytes read, whether the reader has reached the end of file, and how many times
  \<^verbatim>\<open>Close\<close> was called.
\<close>

record body =
  b_data :: string
  b_err :: "error option"
  b_off :: nat
  b_eof :: bool
  b_closed :: nat

text \<open>\<^verbatim>\<open>type profileReadCloser struct { io.ReadCloser; name string }\<close>\<close>

record profileReadCloser =
  ReadCloser :: nat
  name :: string

text \<open>\<^verbatim>\<open>tar.Header\<close>, with the fields the program sets.\<close>

record Header =
  Name :: string
  Mode :: int
  Size :: int

text \<open>
  What the codec layers write, as logical pieces: the header of the gzip stream (which
  the gzip writer writes before the first bytes it is given), an entry header, an entry
  body, the end of the tar stream (the two zero blocks written by \<^verbatim>\<open>tw.Close\<close>) and
  the end of the gzip stream (checksum and size, written by \<^verbatim>\<open>gw.Close\<close>).
\<close>

datatype chunk =
    GzipHeader
  | TarHeader Header
  | TarData string
  | TarEnd
  | GzipEnd

text \<open>\<^verbatim>\<open>type Main struct\<close>; the three streams are part of the state below.\<close>

record Main =
  URL :: url
  Prefix :: string
  OutputPath :: string
  ProfileNames :: "string list"
  Verbose :: bool

definition DefaultPrefix :: string where
  "DefaultPrefix = ''/debug/pprof''"

definition DefaultProfileNames :: "string list" where
  "DefaultProfileNames =
     [''profile'', ''heap'', ''block'', ''goroutine?debug=2'', ''threadcreate'']"

definition NewMain :: Main where
  "NewMain =
     \<lparr>URL = \<lparr>Scheme = [], Host = [], Path = [], RawQuery = []\<rparr>,
      Prefix = DefaultPrefix, OutputPath = [],
      ProfileNames = DefaultProfileNames, Verbose = False\<rparr>"

subsection \<open>The collaborators\<close>

text \<open>
  What the libraries answer is not decided by the program. Each field is the answer of one
  library call: \<^verbatim>\<open>http.Get\<close> (on the URL, not on its string form),
  \<^verbatim>\<open>path.Join\<close>, \<^verbatim>\<open>url.Parse\<close>, \<^verbatim>\<open>os.Create\<close> (the error, if any), the
  errors of the writes that the tar writer's \<^verbatim>\<open>WriteHeader\<close>, \<^verbatim>\<open>Write\<close> and
  \<^verbatim>\<open>Close\<close> make, of the gzip writer's \<^verbatim>\<open>Close\<close> and of the sink's
  \<^verbatim>\<open>Close\<close>, whether \<^verbatim>\<open>m.Stdout\<close> is an \<^verbatim>\<open>io.Closer\<close>
  (\<^verbatim>\<open>os.Stdout\<close> is one, a \<^verbatim>\<open>bytes.Buffer\<close> is not), how many of the pieces
  that the compressor of the gzip writer holds back it passes on to the output during a
  call (\<open>e_flush\<close>, of the pieces held; this depends on their sizes, and is 0 as long as
  they are small), \<^verbatim>\<open>os.Remove\<close> (the error, if any), and \<^verbatim>\<open>strconv.Quote\<close>,
  with which package flag prints a value in an error. A library's error is
  given by its text and becomes an \<open>External\<close> error: no library returns
  \<^verbatim>\<open>flag.ErrHelp\<close> or an error value made by this program.
\<close>

record env =
  e_Get :: "url \<Rightarrow> string + response"
  e_Join :: "string \<Rightarrow> string \<Rightarrow> string"
  e_url_Parse :: "string \<Rightarrow> string + url"
  e_Create :: "string \<Rightarrow> string option"
  e_WriteHeader :: "Header \<Rightarrow> string option"
  e_Write :: "string \<Rightarrow> string option"
  e_tw_Close :: "string option"
  e_gw_Close :: "string option"
  e_w_Close :: "string option"
  e_Stdout_Closer :: bool
  e_flush :: "chunk list \<Rightarrow> nat"
  e_Remove :: "string \<Rightarrow> string option"
  e_Quote :: "string \<Rightarrow> string"

subsection \<open>The state\<close>

text \<open>
  \<open>Run\<close> starts one goroutine for each profile and one that closes the channel, and
  goes on itself. The state holds where each of them stands.

  A fetch goroutine (\<^verbatim>\<open>go func(name string) { defer wg.Done(); m.fetchProfile(name,
  results) }(name)\<close>) is at \<open>T_Start\<close> when it has been started, at \<open>T_Send r\<close> when
  \<open>fetchProfile\<close> waits to send \<open>r\<close> on the unbuffered channel, at \<open>T_Exit\<close> when
  \<open>fetchProfile\<close> has returned and the deferred \<^verbatim>\<open>wg.Done()\<close> is still to run, at
  \<open>T_Done\<close> when it has ended.
\<close>

datatype task_pc = T_Start | T_Send profileReadCloser | T_Exit | T_Done

record task =
  t_name :: string
  t_pc :: task_pc

text \<open>
  The closing goroutine (\<^verbatim>\<open>go func() { wg.Wait(); close(results) }()\<close>): not started,
  in \<^verbatim>\<open>wg.Wait()\<close>, between the two calls, ended.
\<close>

datatype closer_pc = C_None | C_Wait | C_Close | C_Done

text \<open>
  \<open>Run\<close> itself: in the loop of \<open>fetchProfiles\<close> with the names still to start;
  about to determine the output writer; in \<^verbatim>\<open>for r := range results\<close>; returned, with
  its result (\<open>None\<close> is \<^verbatim>\<open>nil\<close>).
\<close>

datatype main_pc = M_Fetch "string list" | M_Output | M_Range | M_Return "error option"

text \<open>The variable \<^verbatim>\<open>w\<close> of \<open>Run\<close>: not set yet, \<^verbatim>\<open>m.Stdout\<close>, or the file created.\<close>

datatype writer = W_none | W_Stdout | W_File string

text \<open>
  The world (what was written to the error stream, line by line, a logger's time stamp
  left out; what was written to standard output; the files on disk; the HTTP requests made
  so far, in order; the response bodies), the goroutines, the channel and the wait group,
  and the local variables of \<open>Run\<close>: \<open>sink\<close> is \<^verbatim>\<open>w\<close>; \<open>tw_err\<close> and
  \<open>tw_closed\<close> are the fields \<^verbatim>\<open>err\<close> and \<^verbatim>\<open>closed\<close> of the tar writer, which
  keeps the first error of a write and answers every later call with it; \<open>gw_err\<close> and
  \<open>gw_closed\<close> are those of the gzip writer, which does the same, \<open>gw_wroteHeader\<close>
  is its field \<^verbatim>\<open>wroteHeader\<close>, \<open>gw_in\<close> is all it has been given so far (of which
  the writer keeps the length and the checksum, \<^verbatim>\<open>size\<close> and \<^verbatim>\<open>digest\<close>) and
  \<open>gw_buf\<close> is what its compressor holds back, not yet passed on to the output;
  \<open>w_closed\<close> counts the \<^verbatim>\<open>Close\<close> calls on the sink.
\<close>

record state =
  stderr :: "string list"
  stdout :: "chunk list"
  files :: "string \<rightharpoonup> chunk list"
  requests :: "url list"
  bodies :: "body list"
  main_pc :: main_pc
  tasks :: "task list"
  wg :: int
  closer_pc :: closer_pc
  chan_closed :: bool
  sink :: writer
  tw_err :: "error option"
  tw_closed :: bool
  gw_err :: "error option"
  gw_closed :: bool
  gw_wroteHeader :: bool
  gw_in :: "chunk list"
  gw_buf :: "chunk list"
  w_closed :: nat
  successN :: nat

text \<open>\<^verbatim>\<open>m.logger().Printf(...)\<close>: one more line on the error stream.\<close>

definition logf :: "string \<Rightarrow> state \<Rightarrow> state" where
  "logf line s = s\<lparr>stderr := stderr s @ [line]\<rparr>"

subsection \<open>Response bodies\<close>

text \<open>
  \<^verbatim>\<open>ioutil.ReadAll(r)\<close> reads until the end of file or an error, and returns the bytes
  or the error. A body that was closed cannot be read.
\<close>

definition ReadAll :: "nat \<Rightarrow> state \<Rightarrow> state \<times> (error + string)" where
  "ReadAll r s =
     (if r < length (bodies s) then
        (let b = bodies s ! r in
         if 0 < b_closed b then (s, Inl (External ''http: read on closed response body''))
         else
           (case b_err b of
              None \<Rightarrow>
                (s\<lparr>bodies := (bodies s)[r := b\<lparr>b_off := length (b_data b), b_eof := True\<rparr>]\<rparr>,
                 Inr (drop (b_off b) (b_data b)))
            | Some e \<Rightarrow>
                (s\<lparr>bodies := (bodies s)[r := b\<lparr>b_off := length (b_data b)\<rparr>]\<rparr>, Inl e)))
      else (s, Inl (External ''invalid reader'')))"

definition Body_Close :: "nat \<Rightarrow> state \<Rightarrow> state" where
  "Body_Close r s =
     (if r < length (bodies s) then
        s\<lparr>bodies := (bodies s)[r := (bodies s ! r)\<lparr>b_closed := b_closed (bodies s ! r) + 1\<rparr>]\<rparr>
      else s)"

subsection \<open>fetchProfile\<close>

text \<open>
  \<^verbatim>\<open>
  func (m *Main) fetchProfile(name string, results chan profileReadCloser) {
      segment, query := ParseProfileName(name)
      u := m.URL
      u.Path = path.Join(m.Prefix, segment)
      u.RawQuery = query
      resp, err := http.Get(u.String())
      if err != nil {
          m.logger().Printf("[%s] error: %s", segment, err)
          return
      } else if resp.StatusCode != http.StatusOK {
          m.logger().Printf("[%s] error: status=%d", segment, resp.StatusCode)
          resp.Body.Close()
          return
      }
      results <- profileReadCloser{name: name, ReadCloser: resp.Body}
  }\<close>
  The function up to its last statement: the result is the new state and the value it
  sends on the channel, if it gets that far. The send itself blocks until \<open>Run\<close>
  receives, and is a step of the goroutines below.
\<close>

definition fetch_url :: "env \<Rightarrow> Main \<Rightarrow> string \<Rightarrow> url" where
  "fetch_url E m nm =
     (URL m)\<lparr>Path := e_Join E (Prefix m) (fst (ParseProfileName nm)),
             RawQuery := snd (ParseProfileName nm)\<rparr>"

definition new_body :: "response \<Rightarrow> body" where
  "new_body resp =
     \<lparr>b_data = Body_data resp, b_err = map_option External (Body_err resp),
      b_off = 0, b_eof = False, b_closed = 0\<rparr>"

definition fetchProfile ::
  "env \<Rightarrow> Main \<Rightarrow> string \<Rightarrow> state \<Rightarrow> state \<times> profileReadCloser option" where
  "fetchProfile E m nm s =
     (let segment = fst (ParseProfileName nm);
          u = fetch_url E m nm;
          s1 = s\<lparr>requests := requests s @ [u]\<rparr>
      in case e_Get E u of
           Inl err \<Rightarrow>
             (logf (''['' @ segment @ ''] error: '' @ Error (External err)) s1, None)
         | Inr resp \<Rightarrow>
             (let r = length (bodies s1);
                  s2 = s1\<lparr>bodies := bodies s1 @ [new_body resp]\<rparr>
              in if StatusCode resp \<noteq> StatusOK then
                   (Body_Close r
                      (logf (''['' @ segment @ ''] error: status='' @ Itoa (StatusCode resp)) s2),
                    None)
                 else (s2, Some \<lparr>ReadCloser = r, name = nm\<rparr>)))"

subsection \<open>writeTarFile\<close>

text \<open>\<^verbatim>\<open>w.Write\<close>: pieces reach the output \<open>w\<close>.\<close>

definition put :: "chunk list \<Rightarrow> state \<Rightarrow> state" where
  "put cs s =
     (case sink s of
        W_none \<Rightarrow> s
      | W_Stdout \<Rightarrow> s\<lparr>stdout := stdout s @ cs\<rparr>
      | W_File p \<Rightarrow> s\<lparr>files := (files s)(p := map_option (\<lambda>old. old @ cs) (files s p))\<rparr>)"

text \<open>
  The gzip writer of compress/gzip does not write what it is given to the output at once.
  \<^verbatim>\<open>
  func (z *Writer) Write(p []byte) (int, error) {
      if z.err != nil { return 0, z.err }
      var n int
      if !z.wroteHeader {
          z.wroteHeader = true
          ...
          _, z.err = z.w.Write(z.buf[:10])
          if z.err != nil { return 0, z.err }
          ...
          if z.compressor == nil { z.compressor, _ = flate.NewWriter(z.w, z.level) }
      }
      z.size += uint32(len(p))
      z.digest = crc32.Update(z.digest, crc32.IEEETable, p)
      n, z.err = z.compressor.Write(p)
      return n, z.err
  }\<close>
  Before the first bytes it writes the header of the gzip stream to the output; the bytes
  go to the compressor, which holds them back and passes on to the output as many of the
  pieces it holds as \<open>e_flush\<close> says (\<open>gz_pass\<close>). \<open>gz_Write\<close> is a write that
  succeeds. A write that fails has passed on what the compressor passed on before the
  error, and nothing of the new piece.
\<close>

definition gz_pass :: "env \<Rightarrow> state \<Rightarrow> state" where
  "gz_pass E s =
     put (take (e_flush E (gw_buf s)) (gw_buf s))
       (s\<lparr>gw_buf := drop (e_flush E (gw_buf s)) (gw_buf s)\<rparr>)"

definition gz_Write :: "env \<Rightarrow> chunk \<Rightarrow> state \<Rightarrow> state" where
  "gz_Write E c s =
     (let s1 = (if gw_wroteHeader s then s else put [GzipHeader] (s\<lparr>gw_wroteHeader := True\<rparr>))
      in gz_pass E (s1\<lparr>gw_in := gw_in s1 @ [c], gw_buf := gw_buf s1 @ [c]\<rparr>))"

text \<open>
  \<^verbatim>\<open>tw.WriteHeader(hdr)\<close> and \<^verbatim>\<open>tw.Write(buf)\<close> of archive/tar: with an earlier
  error they return that error; otherwise they write into the gzip writer, and an error of
  that write stays with both writers. The header the program builds (a name without
  special characters, a size that is not negative) is one the tar writer can encode, and
  the bytes written are as many as the header's size says, so no other error arises.
\<close>

definition WriteHeader :: "env \<Rightarrow> Header \<Rightarrow> state \<Rightarrow> state \<times> error option" where
  "WriteHeader E hdr s =
     (case tw_err s of
        Some err \<Rightarrow> (s, Some err)
      | None \<Rightarrow>
          (case e_WriteHeader E hdr of
             Some t \<Rightarrow> ((gz_pass E s)\<lparr>tw_err := Some (External t), gw_err := Some (External t)\<rparr>,
                         Some (External t))
           | None \<Rightarrow> (gz_Write E (TarHeader hdr) s, None)))"

definition Write :: "env \<Rightarrow> string \<Rightarrow> state \<Rightarrow> state \<times> error option" where
  "Write E buf s =
     (case tw_err s of
        Some err \<Rightarrow> (s, Some err)
      | None \<Rightarrow>
          (case e_Write E buf of
             Some t \<Rightarrow> ((gz_pass E s)\<lparr>tw_err := Some (External t), gw_err := Some (External t)\<rparr>,
                         Some (External t))
           | None \<Rightarrow> (gz_Write E (TarData buf) s, None)))"

text \<open>
  \<^verbatim>\<open>
  func (m *Main) writeTarFile(tw *tar.Writer, name string, r io.ReadCloser) error {
      buf, err := ioutil.ReadAll(r)
      if err != nil { return err }
      filename := regexp.MustCompile(`[^a-zA-Z0-9_-]+`).ReplaceAllString(name, "-")
      if err := tw.WriteHeader(&tar.Header{
          Name: filename, Mode: 0600, Size: int64(len(buf)),
      }); err != nil { return err }
      if _, err := tw.Write(buf); err != nil { return err }
      if m.Verbose {
          segment, _ := ParseProfileName(name)
          m.logger().Printf("[%s] OK", segment)
      }
      return nil
  }\<close>
  The mode \<^verbatim>\<open>0600\<close> is octal: 384. A slice's length fits \<^verbatim>\<open>int64\<close>, so the
  conversion changes nothing.
\<close>

definition writeTarFile ::
  "env \<Rightarrow> Main \<Rightarrow> string \<Rightarrow> nat \<Rightarrow> state \<Rightarrow> state \<times> error option" where
  "writeTarFile E m nm r s =
     (case ReadAll r s of
        (s1, Inl err) \<Rightarrow> (s1, Some err)
      | (s1, Inr buf) \<Rightarrow>
          (let filename = filename_of nm in
           case WriteHeader E \<lparr>Name = filename, Mode = 384, Size = int (length buf)\<rparr> s1 of
             (s2, Some err) \<Rightarrow> (s2, Some err)
           | (s2, None) \<Rightarrow>
               (case Write E buf s2 of
                  (s3, Some err) \<Rightarrow> (s3, Some err)
                | (s3, None) \<Rightarrow>
                    (if Verbose m
                     then (logf (''['' @ fst (ParseProfileName nm) @ ''] OK'') s3, None)
                     else (s3, None)))))"

subsection \<open>Run\<close>

text \<open>
  The part of \<open>Run\<close> that determines the output writer:
  \<^verbatim>\<open>
      var w io.Writer
      if m.OutputPath == "" {
          w = m.Stdout
      } else {
          f, err := os.Create(m.OutputPath)
          if err != nil { return err }
          defer f.Close()
          w = f
      }
      gw := gzip.NewWriter(w); defer gw.Close()
      tw := tar.NewWriter(gw); defer tw.Close()\<close>
  \<^verbatim>\<open>os.Create\<close> makes the file empty.
\<close>

definition Run_output :: "env \<Rightarrow> Main \<Rightarrow> state \<Rightarrow> state \<times> error option" where
  "Run_output E m s =
     (if OutputPath m = [] then (s\<lparr>sink := W_Stdout\<rparr>, None)
      else
        (case e_Create E (OutputPath m) of
           Some t \<Rightarrow> (s, Some (External t))
         | None \<Rightarrow>
             (s\<lparr>files := (files s)(OutputPath m \<mapsto> []), sink := W_File (OutputPath m)\<rparr>,
              None)))"

text \<open>
  \<^verbatim>\<open>tw.Close()\<close> of archive/tar: \<^verbatim>\<open>if tw.err != nil || tw.closed { return tw.err
  }\<close>; otherwise the writer is closed and the end of the tar stream is written into the
  gzip writer. \<^verbatim>\<open>gw.Close()\<close> of compress/gzip:
  \<^verbatim>\<open>
  func (z *Writer) Close() error {
      if z.err != nil { return z.err }
      if z.closed { return nil }
      z.closed = true
      if !z.wroteHeader {
          z.Write(nil)
          if z.err != nil { return z.err }
      }
      z.err = z.compressor.Close()
      if z.err != nil { return z.err }
      le.PutUint32(z.buf[:4], z.digest)
      le.PutUint32(z.buf[4:8], z.size)
      _, z.err = z.w.Write(z.buf[:8])
      return z.err
  }\<close>
  When it succeeds, the output has received the header (if it was not written before),
  all that the compressor held back, and the end of the gzip stream. When it fails, the
  output has received what the compressor passed on before the error, and not the end of
  the gzip stream.
\<close>

definition tw_Close :: "env \<Rightarrow> state \<Rightarrow> state \<times> error option" where
  "tw_Close E s =
     (if tw_err s \<noteq> None \<or> tw_closed s then (s, tw_err s)
      else
        (case e_tw_Close E of
           Some t \<Rightarrow>
             ((gz_pass E s)\<lparr>tw_closed := True, tw_err := Some (External t),
                gw_err := Some (External t)\<rparr>, Some (External t))
         | None \<Rightarrow> (gz_Write E TarEnd (s\<lparr>tw_closed := True\<rparr>), None)))"

definition gw_Close :: "env \<Rightarrow> state \<Rightarrow> state \<times> error option" where
  "gw_Close E s =
     (if gw_err s \<noteq> None then (s, gw_err s)
      else if gw_closed s then (s, None)
      else
        (case e_gw_Close E of
           Some t \<Rightarrow>
             ((gz_pass E s)\<lparr>gw_closed := True, gw_err := Some (External t)\<rparr>, Some (External t))
         | None \<Rightarrow>
             (put ((if gw_wroteHeader s then [] else [GzipHeader]) @ gw_buf s @ [GzipEnd])
                (s\<lparr>gw_closed := True, gw_wroteHeader := True, gw_buf := []\<rparr>), None)))"

text \<open>
  \<^verbatim>\<open>if w, ok := w.(io.Closer); ok { if err := w.Close(); err != nil { return err } }\<close>:
  a file is a closer; standard output is one or not.
\<close>

definition w_Close :: "env \<Rightarrow> state \<Rightarrow> state \<times> error option" where
  "w_Close E s =
     (case sink s of
        W_none \<Rightarrow> (s, None)
      | W_Stdout \<Rightarrow>
          (if e_Stdout_Closer E
           then (s\<lparr>w_closed := w_closed s + 1\<rparr>, map_option External (e_w_Close E))
           else (s, None))
      | W_File p \<Rightarrow> (s\<lparr>w_closed := w_closed s + 1\<rparr>, map_option External (e_w_Close E)))"

text \<open>
  The deferred calls run when \<open>Run\<close> returns, last registered first:
  \<^verbatim>\<open>tw.Close()\<close>, \<^verbatim>\<open>gw.Close()\<close>, and \<^verbatim>\<open>f.Close()\<close> when a file was
  created. Their results are dropped.
\<close>

definition deferred :: "env \<Rightarrow> state \<Rightarrow> state" where
  "deferred E s =
     (let s1 = fst (tw_Close E s);
          s2 = fst (gw_Close E s1)
      in case sink s2 of
           W_File p \<Rightarrow> s2\<lparr>w_closed := w_closed s2 + 1\<rparr>
         | _ \<Rightarrow> s2)"

text \<open>
  \<^verbatim>\<open>os.Remove(path)\<close>: the file is gone, or it is left as it is and the call returns
  an error. The program drops the result of the call.
\<close>

definition Remove :: "env \<Rightarrow> string \<Rightarrow> state \<Rightarrow> state \<times> error option" where
  "Remove E p s =
     (case e_Remove E p of
        Some t \<Rightarrow> (s, Some (External t))
      | None \<Rightarrow> (s\<lparr>files := (files s)(p := None)\<rparr>, None))"

text \<open>
  The part of \<open>Run\<close> behind the loop:
  \<^verbatim>\<open>
      if err := tw.Close(); err != nil {
          return err
      } else if err := gw.Close(); err != nil {
          return err
      }
      if w, ok := w.(io.Closer); ok {
          if err := w.Close(); err != nil { return err }
      }
      if successN == 0 {
          if m.OutputPath != "" { os.Remove(m.OutputPath) }
          return errors.New("no profiles written")
      }
      if m.Verbose {
          m.logger().Printf("%d profiles successfully written", successN)
      }
      return nil\<close>
\<close>

definition Run_finish :: "env \<Rightarrow> Main \<Rightarrow> state \<Rightarrow> state \<times> error option" where
  "Run_finish E m s =
     (case tw_Close E s of
        (s1, Some err) \<Rightarrow> (deferred E s1, Some err)
      | (s1, None) \<Rightarrow>
          (case gw_Close E s1 of
             (s2, Some err) \<Rightarrow> (deferred E s2, Some err)
           | (s2, None) \<Rightarrow>
               (case w_Close E s2 of
                  (s3, Some err) \<Rightarrow> (deferred E s3, Some err)
                | (s3, None) \<Rightarrow>
                    (if successN s3 = 0 then
                       (deferred E
                          (if OutputPath m \<noteq> [] then fst (Remove E (OutputPath m) s3) else s3),
                        Some (ErrorNew ''no profiles written''))
                     else
                       (deferred E
                          (if Verbose m
                           then logf (Itoa (int (successN s3)) @ '' profiles successfully written'') s3
                           else s3),
                        None)))))"

subsection \<open>The goroutines\<close>

text \<open>
  Which goroutine moves next is not decided by the program. A schedule is a list of moves:
  \<open>G_main\<close> is the next step of \<open>Run\<close> itself, \<open>G_task i\<close> the next step of the
  \<open>i\<close>-th fetch goroutine, \<open>G_closer\<close> the next step of the closing goroutine, and
  \<open>G_recv i\<close> the meeting of \<open>Run\<close>, waiting in its \<^verbatim>\<open>range\<close> loop, with the
  \<open>i\<close>-th fetch goroutine, waiting in its send. A move that cannot be made (the goroutine
  is blocked, has ended or does not exist) leaves the state as it is.
\<close>

datatype move = G_main | G_task nat | G_recv nat | G_closer

text \<open>
  \<open>Run\<close> itself. In \<open>fetchProfiles\<close>, one turn of the loop for each name:
  \<^verbatim>\<open>
      for _, name := range names {
          if m.Verbose {
              segment, _ := ParseProfileName(name)
              m.logger().Printf("[%s] fetching", segment)
          }
          wg.Add(1)
          go func(name string) { defer wg.Done(); m.fetchProfile(name, results) }(name)
      }
      go func() { wg.Wait(); close(results) }()\<close>
  then the output writer; then the loop over the channel, which ends when the channel is
  closed, and the rest of \<open>Run\<close>.
\<close>

definition main_step :: "env \<Rightarrow> Main \<Rightarrow> state \<Rightarrow> state" where
  "main_step E m s =
     (case main_pc s of
        M_Fetch [] \<Rightarrow> s\<lparr>closer_pc := C_Wait, main_pc := M_Output\<rparr>
      | M_Fetch (nm # rest) \<Rightarrow>
          (let s1 = (if Verbose m
                     then logf (''['' @ fst (ParseProfileName nm) @ ''] fetching'') s else s)
           in s1\<lparr>wg := wg s1 + 1,
                 tasks := tasks s1 @ [\<lparr>t_name = nm, t_pc = T_Start\<rparr>],
                 main_pc := M_Fetch rest\<rparr>)
      | M_Output \<Rightarrow>
          (case Run_output E m s of
             (s1, Some err) \<Rightarrow> s1\<lparr>main_pc := M_Return (Some err)\<rparr>
           | (s1, None) \<Rightarrow> s1\<lparr>main_pc := M_Range\<rparr>)
      | M_Range \<Rightarrow>
          (if chan_closed s
           then (case Run_finish E m s of (s1, res) \<Rightarrow> s1\<lparr>main_pc := M_Return res\<rparr>)
           else s)
      | M_Return res \<Rightarrow> s)"

text \<open>
  The body of the loop, for the value \<open>r\<close> received from the \<open>i\<close>-th goroutine, whose
  send is over:
  \<^verbatim>\<open>
      for r := range results {
          if err := m.writeTarFile(tw, r.name, r.ReadCloser); err != nil {
              logger.Printf("[%s] archive failed: %s", r.name, err)
          } else {
              successN++
          }
      }\<close>
\<close>

definition recv_step :: "env \<Rightarrow> Main \<Rightarrow> nat \<Rightarrow> state \<Rightarrow> state" where
  "recv_step E m i s =
     (if main_pc s = M_Range \<and> i < length (tasks s) then
        (case t_pc (tasks s ! i) of
           T_Send r \<Rightarrow>
             (let s1 = s\<lparr>tasks := (tasks s)[i := (tasks s ! i)\<lparr>t_pc := T_Exit\<rparr>]\<rparr>
              in case writeTarFile E m (name r) (ReadCloser r) s1 of
                   (s2, Some err) \<Rightarrow>
                     logf (''['' @ name r @ ''] archive failed: '' @ Error err) s2
                 | (s2, None) \<Rightarrow> s2\<lparr>successN := successN s2 + 1\<rparr>)
         | _ \<Rightarrow> s)
      else s)"

text \<open>
  A fetch goroutine: \<open>fetchProfile\<close> up to the send or to its return, then, after the
  return, the deferred \<^verbatim>\<open>wg.Done()\<close>.
\<close>

definition task_step :: "env \<Rightarrow> Main \<Rightarrow> nat \<Rightarrow> state \<Rightarrow> state" where
  "task_step E m i s =
     (if i < length (tasks s) then
        (case t_pc (tasks s ! i) of
           T_Start \<Rightarrow>
             (case fetchProfile E m (t_name (tasks s ! i)) s of
                (s1, Some r) \<Rightarrow>
                  s1\<lparr>tasks := (tasks s1)[i := (tasks s1 ! i)\<lparr>t_pc := T_Send r\<rparr>]\<rparr>
              | (s1, None) \<Rightarrow>
                  s1\<lparr>tasks := (tasks s1)[i := (tasks s1 ! i)\<lparr>t_pc := T_Exit\<rparr>]\<rparr>)
         | T_Exit \<Rightarrow>
             s\<lparr>tasks := (tasks s)[i := (tasks s ! i)\<lparr>t_pc := T_Done\<rparr>], wg := wg s - 1\<rparr>
         | _ \<Rightarrow> s)
      else s)"

text \<open>The closing goroutine: \<^verbatim>\<open>wg.Wait()\<close> returns when the counter is zero.\<close>

definition closer_step :: "state \<Rightarrow> state" where
  "closer_step s =
     (case closer_pc s of
        C_Wait \<Rightarrow> (if wg s = 0 then s\<lparr>closer_pc := C_Close\<rparr> else s)
      | C_Close \<Rightarrow> s\<lparr>chan_closed := True, closer_pc := C_Done\<rparr>
      | _ \<Rightarrow> s)"

fun step :: "env \<Rightarrow> Main \<Rightarrow> state \<Rightarrow> move \<Rightarrow> state" where
  "step E m s G_main = main_step E m s"
| "step E m s (G_task i) = task_step E m i s"
| "step E m s (G_recv i) = recv_step E m i s"
| "step E m s G_closer = closer_step s"

text \<open>
  \<open>Run\<close> begins with an empty channel and wait group and no goroutine, in a given world
  \<open>s0\<close> (of which only the first five fields are read).
\<close>

definition Run_init :: "Main \<Rightarrow> state \<Rightarrow> state" where
  "Run_init m s0 =
     s0\<lparr>main_pc := M_Fetch (ProfileNames m), tasks := [], wg := 0, closer_pc := C_None,
        chan_closed := False, sink := W_none, tw_err := None, tw_closed := False,
        gw_err := None, gw_closed := False, gw_wroteHeader := False, gw_in := [],
        gw_buf := [], w_closed := 0, successN := 0\<rparr>"

definition Run :: "env \<Rightarrow> Main \<Rightarrow> move list \<Rightarrow> state \<Rightarrow> state" where
  "Run E m sched s0 = foldl (step E m) (Run_init m s0) sched"

text \<open>The world before the program has done anything.\<close>

definition world0 :: state where
  "world0 =
     \<lparr>stderr = [], stdout = [], files = Map.empty, requests = [], bodies = [],
      main_pc = M_Return None, tasks = [], wg = 0, closer_pc = C_None,
      chan_closed = False, sink = W_none, tw_err = None, tw_closed = False,
      gw_err = None, gw_closed = False, gw_wroteHeader = False, gw_in = [], gw_buf = [],
      w_closed = 0, successN = 0\<rparr>"

subsection \<open>The command line\<close>

text \<open>
  The flag set of \<open>ParseFlags\<close>: \<^verbatim>\<open>-o\<close> (a string, bound to
  \<^verbatim>\<open>m.OutputPath\<close>), \<^verbatim>\<open>-profiles\<close> (a string) and \<^verbatim>\<open>-v\<close> (a boolean, bound
  to \<^verbatim>\<open>m.Verbose\<close>).
\<close>

record flagset =
  fs_o :: string
  fs_profiles :: string
  fs_v :: bool

datatype flag_kind = StringFlag | BoolFlag

definition formal :: "string \<Rightarrow> flag_kind option" where
  "formal nm =
     (if nm = ''o'' \<or> nm = ''profiles'' then Some StringFlag
      else if nm = ''v'' then Some BoolFlag
      else None)"

definition set_flag :: "string \<Rightarrow> string \<Rightarrow> flagset \<Rightarrow> flagset" where
  "set_flag nm v fs = (if nm = ''o'' then fs\<lparr>fs_o := v\<rparr> else fs\<lparr>fs_profiles := v\<rparr>)"

text \<open>\<^verbatim>\<open>strconv.ParseBool\<close>.\<close>

definition ParseBool :: "string \<Rightarrow> bool option" where
  "ParseBool str =
     (if str \<in> set [''1'', ''t'', ''T'', ''TRUE'', ''true'', ''True''] then Some True
      else if str \<in> set [''0'', ''f'', ''F'', ''FALSE'', ''false'', ''False''] then Some False
      else None)"

text \<open>
  The name of the flag in an argument that starts with one or two \<^verbatim>\<open>-\<close>: what
  stands behind them, up to an \<^verbatim>\<open>=\<close> that is not its first character.
\<close>

definition flag_body :: "string \<Rightarrow> string" where
  "flag_body s = drop (if s ! 1 = CHR ''-'' then 2 else 1) s"

definition flag_name :: "string \<Rightarrow> string" where
  "flag_name s =
     (case IndexByte (tl (flag_body s)) CHR ''='' of
        None \<Rightarrow> flag_body s
      | Some j \<Rightarrow> take (j + 1) (flag_body s))"

text \<open>
  \<^verbatim>\<open>(*FlagSet).parseOne\<close> of package flag, for this flag set. It answers that it has
  seen a flag (with the flags and the arguments left), that the flags are over (with the
  arguments left), or an error (with the flags and the arguments as the call leaves
  them): \<^verbatim>\<open>flag.ErrHelp\<close> for an undefined flag named \<^verbatim>\<open>help\<close> or \<^verbatim>\<open>h\<close>,
  and an error made by \<^verbatim>\<open>failf\<close> otherwise. The \<^verbatim>\<open>Set\<close> of a boolean flag
  stores what \<^verbatim>\<open>strconv.ParseBool\<close> returns, which is \<^verbatim>\<open>false\<close> when the value
  cannot be parsed, and its error is then \<^verbatim>\<open>parse error\<close>; the \<^verbatim>\<open>Set\<close> of a
  string flag does not fail. What \<^verbatim>\<open>%q\<close> prints (\<^verbatim>\<open>strconv.Quote\<close>) is given
  by \<open>e_Quote\<close>.
  \<^verbatim>\<open>
      if len(f.args) == 0 { return false, nil }
      s := f.args[0]
      if len(s) < 2 || s[0] != '-' { return false, nil }
      numMinuses := 1
      if s[1] == '-' {
          numMinuses++
          if len(s) == 2 { f.args = f.args[1:]; return false, nil }
      }
      name := s[numMinuses:]
      if len(name) == 0 || name[0] == '-' || name[0] == '=' {
          return false, f.failf("bad flag syntax: %s", s)
      }
      f.args = f.args[1:]
      hasValue := false; value := ""
      for i := 1; i < len(name); i++ {
          if name[i] == '=' { value = name[i+1:]; hasValue = true; name = name[0:i]; break }
      }
      flag, ok := f.formal[name]
      if !ok {
          if name == "help" || name == "h" { f.usage(); return false, ErrHelp }
          return false, f.failf("flag provided but not defined: -%s", name)
      }
      if fv, ok := flag.Value.(boolFlag); ok && fv.IsBoolFlag() {
          if hasValue {
              if err := fv.Set(value); err != nil {
                  return false, f.failf("invalid boolean value %q for -%s: %v", value, name, err)
              }
          } else { fv.Set("true") }
      } else {
          if !hasValue && len(f.args) > 0 { hasValue = true; value, f.args = f.args[0], f.args[1:] }
          if !hasValue { return false, f.failf("flag needs an argument: -%s", name) }
          flag.Value.Set(value)
      }
      return true, nil\<close>
\<close>

datatype parsed =
    Seen flagset "string list"
  | Stop "string list"
  | Fail flagset "string list" error

definition parseOne :: "env \<Rightarrow> flagset \<Rightarrow> string list \<Rightarrow> parsed" where
  "parseOne E fs args =
     (case args of
        [] \<Rightarrow> Stop []
      | s # rest \<Rightarrow>
          if length s < 2 \<or> s ! 0 \<noteq> CHR ''-'' then Stop args
          else if s ! 1 = CHR ''-'' \<and> length s = 2 then Stop rest
          else if length (flag_body s) = 0 \<or> flag_body s ! 0 = CHR ''-''
                  \<or> flag_body s ! 0 = CHR ''=''
          then Fail fs args (FlagError (''bad flag syntax: '' @ s))
          else
            (let hasValue = (IndexByte (tl (flag_body s)) CHR ''='' \<noteq> None);
                 val = (case IndexByte (tl (flag_body s)) CHR ''='' of
                          None \<Rightarrow> []
                        | Some j \<Rightarrow> drop (j + 2) (flag_body s));
                 nm = flag_name s
             in case formal nm of
                  None \<Rightarrow>
                    if nm = ''help'' \<or> nm = ''h'' then Fail fs rest ErrHelp
                    else Fail fs rest (FlagError (''flag provided but not defined: -'' @ nm))
                | Some BoolFlag \<Rightarrow>
                    if hasValue then
                      (case ParseBool val of
                         None \<Rightarrow>
                           Fail (fs\<lparr>fs_v := False\<rparr>) rest
                             (FlagError (''invalid boolean value '' @ e_Quote E val
                                @ '' for -'' @ nm @ '': parse error''))
                       | Some b \<Rightarrow> Seen (fs\<lparr>fs_v := b\<rparr>) rest)
                    else Seen (fs\<lparr>fs_v := True\<rparr>) rest
                | Some StringFlag \<Rightarrow>
                    if hasValue then Seen (set_flag nm val fs) rest
                    else
                      (case rest of
                         [] \<Rightarrow> Fail fs rest (FlagError (''flag needs an argument: -'' @ nm))
                       | v # rest' \<Rightarrow> Seen (set_flag nm v fs) rest')))"

lemma parseOne_Seen_shorter:
  "parseOne E fs args = Seen fs' args' \<Longrightarrow> length args' < length args"
  by (auto simp: parseOne_def Let_def
      split: list.splits if_splits option.splits flag_kind.splits)

text \<open>
  \<^verbatim>\<open>(*FlagSet).Parse\<close> with \<^verbatim>\<open>ContinueOnError\<close>: \<open>parseOne\<close> until the flags are
  over or one fails. The result is the flags, the arguments left (\<^verbatim>\<open>fs.Args()\<close>) and
  the error.
\<close>

function Parse ::
  "env \<Rightarrow> flagset \<Rightarrow> string list \<Rightarrow> flagset \<times> string list \<times> error option" where
  "Parse E fs args =
     (case parseOne E fs args of
        Seen fs' args' \<Rightarrow> Parse E fs' args'
      | Stop args' \<Rightarrow> (fs, args', None)
      | Fail fs' args' err \<Rightarrow> (fs', args', Some err))"
  by pat_completeness auto
termination
  by (relation "measure (\<lambda>(E, fs, args). length args)") (auto dest: parseOne_Seen_shorter)

declare Parse.simps [simp del]

text \<open>
  \<^verbatim>\<open>
  func (m *Main) ParseFlags(args []string) error {
      fs := flag.NewFlagSet("profdump", flag.ContinueOnError)
      fs.SetOutput(ioutil.Discard)
      fs.StringVar(&m.OutputPath, "o", "", "")
      profiles := fs.String("profiles", strings.Join(DefaultProfileNames, ","), "")
      fs.BoolVar(&m.Verbose, "v", false, "")
      if err := fs.Parse(args); err != nil { return err }
      m.ProfileNames = strings.Split(*profiles, ",")
      if fs.NArg() == 0 {
          return errors.New("URL required")
      } else if fs.NArg() > 1 {
          return errors.New("too many arguments")
      }
      u, err := url.Parse(fs.Arg(0))
      if err != nil { return errors.New("invalid URL") }
      m.URL = *u
      return nil
  }\<close>
  The flags \<^verbatim>\<open>-o\<close> and \<^verbatim>\<open>-v\<close> write to the fields of \<open>m\<close> as they are parsed.
\<close>

definition flags0 :: flagset where
  "flags0 = \<lparr>fs_o = [], fs_profiles = Join DefaultProfileNames '','', fs_v = False\<rparr>"

definition ParseFlags :: "env \<Rightarrow> Main \<Rightarrow> string list \<Rightarrow> Main \<times> error option" where
  "ParseFlags E m args =
     (case Parse E flags0 args of
        (fs, rest, Some err) \<Rightarrow> (m\<lparr>OutputPath := fs_o fs, Verbose := fs_v fs\<rparr>, Some err)
      | (fs, rest, None) \<Rightarrow>
          (let m1 = m\<lparr>OutputPath := fs_o fs, Verbose := fs_v fs,
                       ProfileNames := Split (fs_profiles fs) CHR '',''\<rparr>
           in if length rest = 0 then (m1, Some (ErrorNew ''URL required''))
              else if length rest > 1 then (m1, Some (ErrorNew ''too many arguments''))
              else
                (case e_url_Parse E (rest ! 0) of
                   Inl t \<Rightarrow> (m1, Some (ErrorNew ''invalid URL''))
                 | Inr u \<Rightarrow> (m1\<lparr>URL := u\<rparr>, None))))"

text \<open>\<^verbatim>\<open>m.Usage()\<close>: the usage message, line by line.\<close>

definition Usage :: string where
  "Usage = concat (map (\<lambda>l. l @ [CHR 0x0A])
     [''profdump is a tool for retrieving all pprof profiles at once.'',
      ''Profiles are then combined into a single gzipped tar archive.'',
      [],
      ''Usage:'',
      CHR 0x09 # ''profdump [arguments] URL > output.tar.gz'',
      [],
      ''The following flags are available:'',
      [],
      CHR 0x09 # ''-o PATH'',
      CHR 0x09 # ''   File path to write the output to.'',
      CHR 0x09 # ''   Defaults to stdout.'',
      [],
      CHR 0x09 # ''-profiles NAME,NAME,NAME'',
      CHR 0x09 # ''    Comma-delimited list of profiles to fetch.'',
      CHR 0x09 # ''    Defaults to profile,heap,block,goroutine,threadcreate'',
      [],
      CHR 0x09 # ''-v'',
      CHR 0x09 # ''    Show verbose output. If not specified, only shows errors.'',
      []])"

text \<open>
  \<^verbatim>\<open>
  func main() {
      m := NewMain()
      if err := m.ParseFlags(os.Args[1:]); err == flag.ErrHelp {
          fmt.Fprintln(m.Stderr, m.Usage())
          os.Exit(2)
      } else if err != nil {
          fmt.Fprintln(m.Stderr, err)
          os.Exit(1)
      }
      if err := m.Run(); err != nil {
          fmt.Fprintln(m.Stderr, err)
          os.Exit(1)
      }
  }\<close>
  The result is the exit code of the process and the state it leaves; the exit code is
  \<open>None\<close> as long as \<open>Run\<close> has not returned under the schedule. A \<open>main\<close> that
  returns ends the process with code 0.
\<close>

definition main :: "env \<Rightarrow> string list \<Rightarrow> move list \<Rightarrow> state \<Rightarrow> int option \<times> state" where
  "main E args sched ini =
     (case ParseFlags E NewMain args of
        (m, Some err) \<Rightarrow>
          if err = ErrHelp then (Some 2, logf Usage ini)
          else (Some 1, logf (Error err) ini)
      | (m, None) \<Rightarrow>
          (let s = Run E m sched ini
           in case main_pc s of
                M_Return None \<Rightarrow> (Some 0, s)
              | M_Return (Some err) \<Rightarrow> (Some 1, logf (Error err) s)
              | _ \<Rightarrow> (None, s)))"

section \<open>Notions for the properties\<close>

subsection \<open>The output and the bodies\<close>

text \<open>What the output \<open>w\<close> has received.\<close>

definition written :: "state \<Rightarrow> chunk list" where
  "written s =
     (case sink s of
        W_none \<Rightarrow> []
      | W_Stdout \<Rightarrow> stdout s
      | W_File p \<Rightarrow> (case files s p of None \<Rightarrow> [] | Some cs \<Rightarrow> cs))"

text \<open>The output \<open>w\<close> is set, and the file behind it exists.\<close>

definition sink_open :: "state \<Rightarrow> bool" where
  "sink_open s =
     (case sink s of
        W_none \<Rightarrow> False
      | W_Stdout \<Rightarrow> True
      | W_File p \<Rightarrow> files s p \<noteq> None)"

text \<open>
  A body that was never closed, or was closed once with none of it read.
\<close>

definition unread_or_open :: "body \<Rightarrow> bool" where
  "unread_or_open b = (b_closed b = 0 \<or> b_closed b = 1 \<and> b_off b = 0 \<and> \<not> b_eof b)"

subsection \<open>Parts of the state\<close>

text \<open>
  The number of fetch goroutines that have not ended; and the state in parts: the
  goroutines with the channel and the wait group, the output, the local variables of
  \<open>Run\<close>, the errors kept by the two writers, and what the gzip writer holds.
\<close>

definition pending :: "task list \<Rightarrow> nat" where
  "pending ts = length (filter (\<lambda>t. t_pc t \<noteq> T_Done) ts)"

definition ctl :: "state \<Rightarrow> main_pc \<times> task list \<times> int \<times> closer_pc \<times> bool" where
  "ctl s = (main_pc s, tasks s, wg s, closer_pc s, chan_closed s)"

definition outw :: "state \<Rightarrow> chunk list \<times> (string \<rightharpoonup> chunk list)" where
  "outw s = (stdout s, files s)"

definition wrs :: "state \<Rightarrow> writer \<times> bool \<times> bool \<times> nat \<times> nat" where
  "wrs s = (sink s, tw_closed s, gw_closed s, w_closed s, successN s)"

definition errs :: "state \<Rightarrow> error option \<times> error option" where
  "errs s = (tw_err s, gw_err s)"

definition gzs :: "state \<Rightarrow> bool \<times> chunk list \<times> chunk list" where
  "gzs s = (gw_wroteHeader s, gw_in s, gw_buf s)"

subsection \<open>The invariant of the goroutines\<close>

text \<open>
  The counter of the wait group is the number of fetch goroutines that have not ended; the
  goroutines started so far are those of the names passed by the loop of
  \<open>fetchProfiles\<close>, in order, and the closing goroutine is started behind the loop;
  \<^verbatim>\<open>wg.Wait()\<close> has returned only with the counter at zero; the channel is closed
  only by the closing goroutine; and a goroutine waiting in its send holds a value with
  its own name.
\<close>

definition inv_ctl :: "Main \<Rightarrow> state \<Rightarrow> bool" where
  "inv_ctl m s =
     (wg s = int (pending (tasks s))
      \<and> (case main_pc s of
            M_Fetch rest \<Rightarrow> map t_name (tasks s) @ rest = ProfileNames m \<and> closer_pc s = C_None
          | _ \<Rightarrow> map t_name (tasks s) = ProfileNames m \<and> closer_pc s \<noteq> C_None)
      \<and> (closer_pc s = C_Close \<or> closer_pc s = C_Done \<longrightarrow> wg s = 0)
      \<and> (chan_closed s \<longrightarrow> closer_pc s = C_Done)
      \<and> (\<forall>i r. i < length (tasks s) \<and> t_pc (tasks s ! i) = T_Send r \<longrightarrow>
             name r = t_name (tasks s ! i)))"

subsection \<open>The invariant of the output\<close>

text \<open>
  \<open>write_error\<close>: the error is one that a write of an entry's header or body gave;
  \<open>tw_err_ok\<close>: the tar writer holds no error, or such a one. \<open>gz_ok\<close>: the output
  is there, what it has received and what the compressor holds back are together the
  header of the gzip stream and all that the gzip writer was given (behind what the output
  held at the start), and before the header is written the gzip writer has been given
  nothing.
  \<open>inv_pre\<close>: before the output writer is determined nothing has been written.
  \<open>inv_range\<close>: in the loop over the channel the output is the one asked for, no
  writer is closed, the two writers keep the same error, which is one of a write,
  \<open>gz_ok\<close> holds, nothing has been given to the gzip writer as long as no entry was
  written and the tar writer has no error, and what is not the output is as it was.
  \<open>inv_out\<close>: these, by the place where \<open>Run\<close> stands; after its return, the
  output and the writers are what the failed \<^verbatim>\<open>os.Create\<close> or the last part of
  \<open>Run\<close> left. \<open>wrote\<close>: what a write through the tar writer may change.
\<close>

definition write_error :: "env \<Rightarrow> error \<Rightarrow> bool" where
  "write_error E e =
     (\<exists>t. e = External t
          \<and> ((\<exists>h. e_WriteHeader E h = Some t) \<or> (\<exists>b. e_Write E b = Some t)))"

definition tw_err_ok :: "env \<Rightarrow> state \<Rightarrow> bool" where
  "tw_err_ok E s = (case tw_err s of None \<Rightarrow> True | Some e \<Rightarrow> write_error E e)"

definition gz_ok :: "chunk list \<Rightarrow> state \<Rightarrow> bool" where
  "gz_ok base s =
     (sink_open s
      \<and> written s @ gw_buf s = base @ (if gw_wroteHeader s then GzipHeader # gw_in s else [])
      \<and> (\<not> gw_wroteHeader s \<longrightarrow> gw_in s = [] \<and> gw_buf s = []))"

definition inv_pre :: "state \<Rightarrow> state \<Rightarrow> bool" where
  "inv_pre s0 s =
     (outw s = outw s0 \<and> sink s = W_none \<and> tw_err s = None \<and> gw_err s = None
      \<and> \<not> tw_closed s \<and> \<not> gw_closed s \<and> gzs s = (False, [], []) \<and> successN s = 0)"

definition inv_range :: "env \<Rightarrow> Main \<Rightarrow> state \<Rightarrow> state \<Rightarrow> bool" where
  "inv_range E m s0 s =
     (sink s = (if OutputPath m = [] then W_Stdout else W_File (OutputPath m))
      \<and> \<not> tw_closed s \<and> \<not> gw_closed s \<and> gw_err s = tw_err s
      \<and> tw_err_ok E s
      \<and> gz_ok (if OutputPath m = [] then stdout s0 else []) s
      \<and> (tw_err s = None \<and> successN s = 0 \<longrightarrow> \<not> gw_wroteHeader s)
      \<and> (OutputPath m = [] \<longrightarrow> files s = files s0)
      \<and> (OutputPath m \<noteq> [] \<longrightarrow> stdout s = stdout s0 \<and> e_Create E (OutputPath m) = None))"

definition inv_out :: "env \<Rightarrow> Main \<Rightarrow> state \<Rightarrow> state \<Rightarrow> bool" where
  "inv_out E m s0 s =
     (case main_pc s of
        M_Fetch rest \<Rightarrow> inv_pre s0 s
      | M_Output \<Rightarrow> inv_pre s0 s
      | M_Range \<Rightarrow> inv_range E m s0 s
      | M_Return res \<Rightarrow>
          (\<exists>t. OutputPath m \<noteq> [] \<and> e_Create E (OutputPath m) = Some t
                \<and> res = Some (External t) \<and> outw s = outw s0 \<and> successN s = 0)
          \<or> (\<exists>p. inv_range E m s0 p \<and> outw s = outw (fst (Run_finish E m p))
                \<and> errs s = errs (fst (Run_finish E m p))
                \<and> gzs s = gzs (fst (Run_finish E m p))
                \<and> successN s = successN p \<and> res = snd (Run_finish E m p)))"

definition wrote :: "env \<Rightarrow> state \<Rightarrow> state \<Rightarrow> bool" where
  "wrote E s s' =
     ((gw_err s = tw_err s \<longrightarrow> gw_err s' = tw_err s')
      \<and> (tw_err_ok E s \<longrightarrow> tw_err_ok E s')
      \<and> (sink s = W_Stdout \<longrightarrow> files s' = files s)
      \<and> (sink s \<noteq> W_Stdout \<longrightarrow> stdout s' = stdout s)
      \<and> (tw_err s \<noteq> None \<longrightarrow> outw s' = outw s \<and> gzs s' = gzs s \<and> tw_err s' = tw_err s)
      \<and> (\<forall>base. gz_ok base s \<longrightarrow> gz_ok base s')
      \<and> sink s' = sink s)"

subsection \<open>A schedule under which \<open>Run\<close> returns\<close>

text \<open>
  \<open>Run\<close> goes on until it waits for the channel; then each fetch goroutine in turn
  fetches, hands its result over if it has one, and ends; then the closing goroutine
  closes the channel, and \<open>Run\<close> finishes. \<open>ready n k\<close>: \<open>Run\<close> waits for the
  channel, the first \<open>k\<close> of the \<open>n\<close> fetch goroutines have ended and the others have
  not begun.
\<close>

definition fair_schedule :: "nat \<Rightarrow> move list" where
  "fair_schedule n =
     replicate (n + 2) G_main
     @ concat (map (\<lambda>i. [G_task i, G_recv i, G_task i]) [0..<n])
     @ [G_closer, G_closer, G_main]"


subsection \<open>A server for the examples\<close>

text \<open>
  A server that answers \<^verbatim>\<open>/debug/pprof/heap\<close> with status 200 and the body
  \<^verbatim>\<open>abc\<close>, \<^verbatim>\<open>/debug/pprof/empty\<close> with status 200 and an empty body,
  \<^verbatim>\<open>/debug/pprof/block\<close> with status 500, and is not reached for any other path;
  a \<^verbatim>\<open>path.Join\<close> for paths that are clean already; a file system on which every
  path but \<^verbatim>\<open>/nodir/out\<close> can be created and every file can be removed; writers
  that do not fail; a compressor that holds back all it is given, as it does with a few
  small entries; and the quoting of a string of letters and digits.
\<close>

definition env1 :: env where
  "env1 =
     \<lparr>e_Get = (\<lambda>u.
         if Path u = ''/debug/pprof/heap''
         then Inr \<lparr>StatusCode = 200, Body_data = ''abc'', Body_err = None\<rparr>
         else if Path u = ''/debug/pprof/empty''
         then Inr \<lparr>StatusCode = 200, Body_data = [], Body_err = None\<rparr>
         else if Path u = ''/debug/pprof/block''
         then Inr \<lparr>StatusCode = 500, Body_data = ''oops'', Body_err = None\<rparr>
         else Inl ''connection refused''),
      e_Join = (\<lambda>a b. a @ ''/'' @ b),
      e_url_Parse = (\<lambda>a. Inr \<lparr>Scheme = ''http'', Host = a, Path = [], RawQuery = []\<rparr>),
      e_Create = (\<lambda>p. if p = ''/nodir/out'' then Some ''no such directory'' else None),
      e_WriteHeader = (\<lambda>h. None),
      e_Write = (\<lambda>b. None),
      e_tw_Close = None,
      e_gw_Close = None,
      e_w_Close = None,
      e_Stdout_Closer = True,
      e_flush = (\<lambda>cs. 0),
      e_Remove = (\<lambda>p. None),
      e_Quote = (\<lambda>v. CHR 0x22 # v @ [CHR 0x22])\<rparr>"

text \<open>The same, with a disk that is full when the gzip writer is closed.\<close>

definition env2 :: env where
  "env2 = env1\<lparr>e_gw_Close := Some ''no space left on device''\<rparr>"

text \<open>The same as \<open>env1\<close>, with a file that cannot be removed.\<close>

definition env3 :: env where
  "env3 = env1\<lparr>e_Remove := (\<lambda>p. Some ''operation not permitted'')\<rparr>"

definition main1 :: "string list \<Rightarrow> string \<Rightarrow> Main" where
  "main1 names out = NewMain\<lparr>ProfileNames := names, OutputPath := out\<rparr>"

text \<open>A state in which one profile has been fetched and the output is standard output.\<close>

definition fetched1 :: "string \<Rightarrow> state" where
  "fetched1 nm = fst (fetchProfile env1 NewMain nm (world0\<lparr>sink := W_Stdout\<rparr>))"

section \<open>Properties\<close>

subsection \<open>ParseProfileName\<close>

lemma Split_not_Nil: "Split s sep \<noteq> []"
  by (subst Split.simps) (simp split: option.split)

lemma Split_no_sep: "sep \<notin> set s \<Longrightarrow> Split s sep = [s]"
proof -
  assume "sep \<notin> set s"
  then have "IndexByte s sep = None"
    by (induction s) auto
  then show ?thesis
    by (subst Split.simps) simp
qed

lemma ParseProfileName_no_query:
  "CHR ''?'' \<notin> set nm \<Longrightarrow> ParseProfileName nm = (nm, [])"
  by (simp add: ParseProfileName_def Split_no_sep)

lemma IndexByte_None: "IndexByte s c = None \<longleftrightarrow> c \<notin> set s"
  by (induction s) auto

lemma takeWhile_no_sep:
  "sep \<notin> set s \<Longrightarrow> takeWhile (\<lambda>x. x \<noteq> sep) s = s \<and> dropWhile (\<lambda>x. x \<noteq> sep) s = []"
  by (induction s) auto

lemma IndexByte_Some:
  "IndexByte s c = Some k \<Longrightarrow>
     take k s = takeWhile (\<lambda>x. x \<noteq> c) s \<and> drop (k + 1) s = tl (dropWhile (\<lambda>x. x \<noteq> c) s)"
  by (induction s arbitrary: k) (auto split: if_splits)

lemma Split_Cons:
  "Split s sep =
     takeWhile (\<lambda>x. x \<noteq> sep) s
       # (if sep \<in> set s then Split (tl (dropWhile (\<lambda>x. x \<noteq> sep) s)) sep else [])"
proof (cases "IndexByte s sep")
  case None
  then have "sep \<notin> set s" by (simp add: IndexByte_None)
  then show ?thesis by (simp add: Split_no_sep takeWhile_no_sep)
next
  case (Some k)
  then have "sep \<in> set s" using IndexByte_None [of s sep] by auto
  with Some IndexByte_Some [OF Some] show ?thesis
    by (subst Split.simps) simp
qed

text \<open>
  What \<open>ParseProfileName\<close> returns, for every name: the segment is what stands before
  the first \<^verbatim>\<open>?\<close>, and the query is what stands between the first and the second.
\<close>

lemma ParseProfileName_eq:
  "ParseProfileName nm =
     (takeWhile (\<lambda>c. c \<noteq> CHR ''?'') nm,
      takeWhile (\<lambda>c. c \<noteq> CHR ''?'') (tl (dropWhile (\<lambda>c. c \<noteq> CHR ''?'') nm)))"
proof (cases "CHR ''?'' \<in> set nm")
  case False
  then show ?thesis by (simp add: ParseProfileName_no_query takeWhile_no_sep)
next
  case True
  let ?r = "tl (dropWhile (\<lambda>c. c \<noteq> CHR ''?'') nm)"
  from True have "Split nm CHR ''?'' = takeWhile (\<lambda>c. c \<noteq> CHR ''?'') nm # Split ?r CHR ''?''"
    by (subst Split_Cons) simp
  moreover obtain x xs where "Split ?r CHR ''?'' = x # xs" and "x = takeWhile (\<lambda>c. c \<noteq> CHR ''?'') ?r"
    by (subst (asm) Split_Cons) simp
  ultimately show ?thesis by (simp add: ParseProfileName_def)
qed

text \<open>
  C1. The claim: the query is everything after the first \<^verbatim>\<open>?\<close>, further
  \<^verbatim>\<open>?\<close> included, so that \<^verbatim>\<open>"goroutine?debug=2?x"\<close> gives the query
  \<^verbatim>\<open>"debug=2?x"\<close>. The code splits at every \<^verbatim>\<open>?\<close> and returns the
  second element only (\<open>ParseProfileName_eq\<close>): at the claim's own example the query
  is \<^verbatim>\<open>"debug=2"\<close>, and what follows the second \<^verbatim>\<open>?\<close> is dropped.
\<close>

theorem ParseProfileName_drops_after_second_mark:
  "ParseProfileName ''goroutine?debug=2?x'' = (''goroutine'', ''debug=2'')"
  by (simp add: ParseProfileName_def Split.simps)

subsection \<open>The archive file name\<close>

lemma ReplaceAllString_subset:
  "set repl \<subseteq> Collect allowed \<Longrightarrow> set (ReplaceAllString s repl) \<subseteq> Collect allowed"
proof (induction s repl rule: ReplaceAllString.induct)
  case (1 repl)
  then show ?case by simp
next
  case (2 c cs repl)
  show ?case
  proof (cases "allowed c")
    case True
    from 2(1)[OF True 2(3)] True show ?thesis by simp
  next
    case False
    from 2(2)[OF False 2(3)] 2(3) False show ?thesis by simp
  qed
qed

lemma ReplaceAllString_allowed_out:
  assumes "\<forall>c \<in> set repl. allowed c"
  shows "\<forall>c \<in> set (ReplaceAllString s repl). allowed c"
  using assms ReplaceAllString_subset [of repl s] by blast


lemma ReplaceAllString_id:
  "\<forall>c \<in> set s. allowed c \<Longrightarrow> ReplaceAllString s repl = s"
  by (induction s) auto

lemma ReplaceAllString_append:
  "xs = [] \<or> allowed (last xs) \<Longrightarrow>
   ReplaceAllString (xs @ ys) repl = ReplaceAllString xs repl @ ReplaceAllString ys repl"
proof (induction xs repl rule: ReplaceAllString.induct)
  case (1 repl)
  then show ?case by simp
next
  case (2 c cs repl)
  show ?case
  proof (cases "allowed c")
    case True
    from 2(3) have "cs = [] \<or> allowed (last cs)" by (simp split: if_splits)
    from 2(1)[OF True this] True show ?thesis by simp
  next
    case False
    with 2(3) have ne: "cs \<noteq> []" and la: "allowed (last cs)" by (auto split: if_splits)
    then have ex: "last cs \<in> set cs" "\<not> \<not> allowed (last cs)" by simp_all
    let ?d = "dropWhile (\<lambda>x. \<not> allowed x) cs"
    from ex have dw: "dropWhile (\<lambda>x. \<not> allowed x) (cs @ ys) = ?d @ ys"
      by (rule dropWhile_append1)
    from ex have dne: "?d \<noteq> []" by (auto simp: dropWhile_eq_Nil_conv)
    have "last ?d = last cs"
      using dne by (metis append_Nil2 last_appendR takeWhile_dropWhile_id)
    with la dne 2(2)[OF False] have
      "ReplaceAllString (?d @ ys) repl = ReplaceAllString ?d repl @ ReplaceAllString ys repl"
      by simp
    with False dw show ?thesis by simp
  qed
qed

lemma ReplaceAllString_run:
  assumes "ds \<noteq> []" and "\<forall>d \<in> set ds. \<not> allowed d" and "post = [] \<or> allowed (hd post)"
  shows "ReplaceAllString (ds @ post) repl = repl @ ReplaceAllString post repl"
proof -
  obtain d ds' where ds: "ds = d # ds'" using assms(1) by (cases ds) auto
  have "dropWhile (\<lambda>x. \<not> allowed x) (ds' @ post) = dropWhile (\<lambda>x. \<not> allowed x) post"
    using assms(2) ds by (simp add: dropWhile_append2)
  also have "\<dots> = post" using assms(3) by (cases post) auto
  finally show ?thesis using assms(2) ds by simp
qed

text \<open>
  C6. For every profile name, the archive file name holds only characters of
  \<^verbatim>\<open>[A-Za-z0-9_-]\<close>; a maximal run of other characters (\<open>ds\<close>, with no such
  character right before or right behind it) becomes exactly one \<^verbatim>\<open>-\<close>, and what
  stands around it is treated on its own; a name of allowed characters only is left as it
  is; so the operation is idempotent; and \<^verbatim>\<open>"goroutine?debug=2"\<close> becomes
  \<^verbatim>\<open>"goroutine-debug-2"\<close>.
\<close>

theorem filename_of_sanitized:
  "(\<forall>c \<in> set (filename_of nm). allowed c)
   \<and> (ds \<noteq> [] \<and> (\<forall>d \<in> set ds. \<not> allowed d)
        \<and> (pre = [] \<or> allowed (last pre)) \<and> (post = [] \<or> allowed (hd post))
      \<longrightarrow> filename_of (pre @ ds @ post) = filename_of pre @ ''-'' @ filename_of post)
   \<and> ((\<forall>c \<in> set nm. allowed c) \<longrightarrow> filename_of nm = nm)
   \<and> filename_of (filename_of nm) = filename_of nm
   \<and> filename_of ''goroutine?debug=2'' = ''goroutine-debug-2''"
proof -
  have dash: "\<forall>c \<in> set ''-''. allowed c" by (simp add: allowed_def)
  have a: "\<forall>c \<in> set (filename_of nm). allowed c"
    unfolding filename_of_def using dash by (rule ReplaceAllString_allowed_out)
  have b: "filename_of (pre @ ds @ post) = filename_of pre @ ''-'' @ filename_of post"
    if "ds \<noteq> []" "\<forall>d \<in> set ds. \<not> allowed d" "pre = [] \<or> allowed (last pre)"
       "post = [] \<or> allowed (hd post)"
  proof -
    have "ReplaceAllString (pre @ ds @ post) ''-''
          = ReplaceAllString pre ''-'' @ ReplaceAllString (ds @ post) ''-''"
      using that(3) by (rule ReplaceAllString_append)
    also have "ReplaceAllString (ds @ post) ''-'' = ''-'' @ ReplaceAllString post ''-''"
      using that(1,2,4) by (rule ReplaceAllString_run)
    finally show ?thesis unfolding filename_of_def .
  qed
  have c: "filename_of nm = nm" if "\<forall>c \<in> set nm. allowed c"
    unfolding filename_of_def using that by (rule ReplaceAllString_id)
  have d: "filename_of (filename_of nm) = filename_of nm"
    using a unfolding filename_of_def by (rule ReplaceAllString_id)
  have e: "filename_of ''goroutine?debug=2'' = ''goroutine-debug-2''"
    by (simp add: filename_of_def allowed_def)
  from a b c d e show ?thesis by blast
qed

theorem filename_of_sanitized_witness:
  "filename_of (''goroutine'' @ ''?&='' @ ''debug'') = ''goroutine-debug''
   \<and> filename_of ''heap_2-x'' = ''heap_2-x''
   \<and> list_all allowed (filename_of ''a b/c'')"
proof -
  have h1: "''?&='' \<noteq> [] \<and> (\<forall>d \<in> set ''?&=''. \<not> allowed d)
        \<and> (''goroutine'' = [] \<or> allowed (last ''goroutine''))
        \<and> (''debug'' = [] \<or> allowed (hd ''debug''))"
    by (simp add: allowed_def)
  have h2: "\<forall>c \<in> set ''heap_2-x''. allowed c"
    by (simp add: allowed_def)
  from filename_of_sanitized [of "''a b/c''" "''?&=''" "''goroutine''" "''debug''"] h1
  have "filename_of (''goroutine'' @ ''?&='' @ ''debug'')
        = filename_of ''goroutine'' @ ''-'' @ filename_of ''debug''"
    and "\<forall>c \<in> set (filename_of ''a b/c''). allowed c"
    by blast+
  moreover from filename_of_sanitized [of "''heap_2-x''" "''?''" "[]" "[]"] h2
  have "filename_of ''heap_2-x'' = ''heap_2-x''" by blast
  moreover have "filename_of ''goroutine'' = ''goroutine''" "filename_of ''debug'' = ''debug''"
    by (simp_all add: filename_of_def allowed_def)
  ultimately show ?thesis by (simp add: list_all_iff)
qed

subsection \<open>Evaluation\<close>

text \<open>The definitions a closed example unfolds.\<close>

lemmas eval_defs = Run_def Run_init_def world0_def main_step_def task_step_def recv_step_def
  closer_step_def fetchProfile_def fetch_url_def new_body_def writeTarFile_def ReadAll_def
  Body_Close_def WriteHeader_def Write_def put_def gz_pass_def gz_Write_def logf_def Run_output_def Run_finish_def
  tw_Close_def gw_Close_def w_Close_def deferred_def Remove_def env1_def env2_def env3_def main1_def NewMain_def
  DefaultProfileNames_def
  DefaultPrefix_def ParseProfileName_def Split.simps filename_of_def allowed_def StatusOK_def
  Itoa_def utoa.simps digit_def written_def sink_open_def fetched1_def Let_def

subsection \<open>fetchProfile\<close>



subsection \<open>writeTarFile\<close>

lemma written_put: "sink_open s \<Longrightarrow> written (put cs s) = written s @ cs"
  by (auto simp: sink_open_def written_def put_def split: writer.splits)

lemma sink_open_put: "sink_open (put cs s) = sink_open s"
  by (auto simp: sink_open_def put_def split: writer.splits)

lemma put_frame:
  "ctl (put cs s) = ctl s \<and> wrs (put cs s) = wrs s \<and> errs (put cs s) = errs s
   \<and> gzs (put cs s) = gzs s \<and> requests (put cs s) = requests s \<and> stderr (put cs s) = stderr s
   \<and> bodies (put cs s) = bodies s"
  by (simp add: put_def ctl_def wrs_def errs_def gzs_def split: writer.splits)


lemma written_gw_update:
  "written (s\<lparr>gw_buf := b\<rparr>) = written s" "sink_open (s\<lparr>gw_buf := b\<rparr>) = sink_open s"
  "written (s\<lparr>gw_in := i\<rparr>) = written s" "sink_open (s\<lparr>gw_in := i\<rparr>) = sink_open s"
  "written (s\<lparr>gw_wroteHeader := h\<rparr>) = written s"
  "sink_open (s\<lparr>gw_wroteHeader := h\<rparr>) = sink_open s"
  by (simp_all add: written_def sink_open_def split: writer.splits)

text \<open>What the compressor passes on is no longer held back, and nothing is lost.\<close>

lemma gz_pass_frame:
  "ctl (gz_pass E s) = ctl s \<and> wrs (gz_pass E s) = wrs s \<and> errs (gz_pass E s) = errs s
   \<and> requests (gz_pass E s) = requests s \<and> stderr (gz_pass E s) = stderr s
   \<and> bodies (gz_pass E s) = bodies s \<and> gw_in (gz_pass E s) = gw_in s
   \<and> gw_wroteHeader (gz_pass E s) = gw_wroteHeader s"
  by (simp add: gz_pass_def put_def ctl_def wrs_def errs_def split: writer.splits)

lemma gz_pass_out:
  "(sink s = W_Stdout \<longrightarrow> files (gz_pass E s) = files s)
   \<and> (sink s \<noteq> W_Stdout \<longrightarrow> stdout (gz_pass E s) = stdout s)"
  by (simp add: gz_pass_def put_def split: writer.splits)

lemma gz_pass_ok:
  assumes "gz_ok base s" shows "gz_ok base (gz_pass E s)"
proof -
  let ?k = "e_flush E (gw_buf s)"
  let ?s1 = "s\<lparr>gw_buf := drop ?k (gw_buf s)\<rparr>"
  have o1: "sink_open ?s1" and w1: "written ?s1 = written s"
    using assms by (simp_all add: gz_ok_def written_gw_update)
  have w: "written (gz_pass E s) = written s @ take ?k (gw_buf s)"
    using written_put [OF o1] w1 by (simp add: gz_pass_def)
  have b: "gw_buf (gz_pass E s) = drop ?k (gw_buf s)"
    using put_frame [of "take ?k (gw_buf s)" ?s1] by (simp add: gz_pass_def gzs_def)
  have "written (gz_pass E s) @ gw_buf (gz_pass E s) = written s @ gw_buf s"
    unfolding w b by simp
  moreover have "sink_open (gz_pass E s)"
    using o1 by (simp add: gz_pass_def sink_open_put)
  moreover have "gw_in (gz_pass E s) = gw_in s"
    "gw_wroteHeader (gz_pass E s) = gw_wroteHeader s"
    by (simp_all add: gz_pass_frame)
  ultimately show ?thesis
    using assms b by (simp add: gz_ok_def)
qed

text \<open>A write into the gzip writer that succeeds.\<close>

lemma gz_Write_frame:
  "ctl (gz_Write E c s) = ctl s \<and> wrs (gz_Write E c s) = wrs s \<and> errs (gz_Write E c s) = errs s
   \<and> requests (gz_Write E c s) = requests s \<and> stderr (gz_Write E c s) = stderr s
   \<and> bodies (gz_Write E c s) = bodies s \<and> gw_in (gz_Write E c s) = gw_in s @ [c]
   \<and> gw_wroteHeader (gz_Write E c s)"
  by (simp add: gz_Write_def gz_pass_def put_def ctl_def wrs_def errs_def Let_def
      split: writer.splits)

lemma gz_Write_out:
  "(sink s = W_Stdout \<longrightarrow> files (gz_Write E c s) = files s)
   \<and> (sink s \<noteq> W_Stdout \<longrightarrow> stdout (gz_Write E c s) = stdout s)"
  by (simp add: gz_Write_def gz_pass_def put_def Let_def split: writer.splits)

lemma gz_Write_ok:
  assumes "gz_ok base s" shows "gz_ok base (gz_Write E c s)"
proof -
  let ?s1 = "if gw_wroteHeader s then s else put [GzipHeader] (s\<lparr>gw_wroteHeader := True\<rparr>)"
  let ?s2 = "?s1\<lparr>gw_in := gw_in ?s1 @ [c], gw_buf := gw_buf ?s1 @ [c]\<rparr>"
  have "gz_ok base ?s2"
  proof (cases "gw_wroteHeader s")
    case True
    with assms show ?thesis by (simp add: gz_ok_def written_gw_update)
  next
    case False
    let ?h = "s\<lparr>gw_wroteHeader := True\<rparr>"
    from assms have oh: "sink_open ?h" and wh: "written ?h = written s"
      by (simp_all add: gz_ok_def written_gw_update)
    from assms False have e0: "gw_in s = []" "gw_buf s = []"
      by (simp_all add: gz_ok_def)
    from assms False e0 have e: "written s = base" "gw_in s = []" "gw_buf s = []"
      by (simp_all add: gz_ok_def)
    let ?p = "put [GzipHeader] ?h"
    from written_put [OF oh] wh e have wp: "written ?p = base @ [GzipHeader]" by simp
    from oh have op: "sink_open ?p" by (simp add: sink_open_put)
    from put_frame [of "[GzipHeader]" ?h] e
    have gp: "gw_wroteHeader ?p" "gw_in ?p = []" "gw_buf ?p = []" by (simp_all add: gzs_def)
    let ?q = "?p\<lparr>gw_in := gw_in ?p @ [c], gw_buf := gw_buf ?p @ [c]\<rparr>"
    have "sink_open ?q" "written ?q = written ?p"
      using op by (simp_all add: written_gw_update)
    with wp gp have "gz_ok base ?q" by (simp add: gz_ok_def)
    with False show ?thesis by simp
  qed
  then have "gz_ok base (gz_pass E ?s2)" by (rule gz_pass_ok)
  then show ?thesis by (simp add: gz_Write_def Let_def)
qed

lemma gz_ok_cong:
  "written s' = written s \<Longrightarrow> sink_open s' = sink_open s \<Longrightarrow> gzs s' = gzs s \<Longrightarrow>
   gz_ok base s \<Longrightarrow> gz_ok base s'"
  by (simp add: gz_ok_def gzs_def)

lemma written_logf:
  "written (logf l s) = written s \<and> sink_open (logf l s) = sink_open s
   \<and> gzs (logf l s) = gzs s"
  by (simp add: written_def sink_open_def gzs_def logf_def split: writer.splits)

lemma ReadAll_world:
  "ReadAll r s = (s1, res) \<Longrightarrow>
     sink s1 = sink s \<and> files s1 = files s \<and> stdout s1 = stdout s \<and> stderr s1 = stderr s
     \<and> tw_err s1 = tw_err s \<and> gzs s1 = gzs s"
  by (auto simp: ReadAll_def Let_def gzs_def split: if_splits option.splits)

lemma ReadAll_written:
  "ReadAll r s = (s1, res) \<Longrightarrow> written s1 = written s \<and> sink_open s1 = sink_open s"
  by (drule ReadAll_world) (simp add: written_def sink_open_def split: writer.splits)

lemma WriteHeader_ok:
  "WriteHeader E hdr s = (s2, None) \<Longrightarrow> s2 = gz_Write E (TarHeader hdr) s \<and> tw_err s = None"
  by (auto simp: WriteHeader_def split: option.splits)

lemma Write_ok:
  "Write E buf s = (s3, None) \<Longrightarrow> s3 = gz_Write E (TarData buf) s \<and> tw_err s = None"
  by (auto simp: Write_def split: option.splits)

text \<open>What a successful call has done.\<close>

lemma writeTarFile_ok:
  assumes "writeTarFile E m nm r s = (s', None)"
  shows "\<exists>s1 buf. ReadAll r s = (s1, Inr buf) \<and> tw_err s1 = None
           \<and> s' = (if Verbose m then logf (''['' @ fst (ParseProfileName nm) @ ''] OK'') else id)
                    (gz_Write E (TarData buf)
                      (gz_Write E (TarHeader \<lparr>Name = filename_of nm, Mode = 384,
                                             Size = int (length buf)\<rparr>) s1))"
proof -
  obtain s1 res where ra: "ReadAll r s = (s1, res)" by (cases "ReadAll r s")
  with assms obtain buf where res: "res = Inr buf"
    by (cases res) (auto simp: writeTarFile_def)
  let ?h = "\<lparr>Name = filename_of nm, Mode = 384, Size = int (length buf)\<rparr>"
  obtain s2 e2 where wh: "WriteHeader E ?h s1 = (s2, e2)" by (cases "WriteHeader E ?h s1")
  with assms ra res have e2: "e2 = None"
    by (cases e2) (auto simp: writeTarFile_def Let_def)
  obtain s3 e3 where wd: "Write E buf s2 = (s3, e3)" by (cases "Write E buf s2")
  with assms ra res wh e2 have e3: "e3 = None"
    by (cases e3) (auto simp: writeTarFile_def Let_def)
  from WriteHeader_ok [OF wh [unfolded e2]] have s2: "s2 = gz_Write E (TarHeader ?h) s1"
    and t1: "tw_err s1 = None" by simp_all
  from Write_ok [OF wd [unfolded e3]] have s3: "s3 = gz_Write E (TarData buf) s2" by simp
  from assms ra res wh e2 wd e3 have "s' = (if Verbose m
      then logf (''['' @ fst (ParseProfileName nm) @ ''] OK'') else id) s3"
    by (auto simp: writeTarFile_def Let_def)
  with ra res t1 s2 s3 show ?thesis by blast
qed

lemma writeTarFile_bodies:
  "bodies (fst (writeTarFile E m nm r s)) = bodies (fst (ReadAll r s))"
  by (auto simp: writeTarFile_def WriteHeader_def Write_def Let_def logf_def gz_Write_frame
      gz_pass_frame split: prod.splits sum.splits option.splits)

text \<open>
  C8. When \<open>writeTarFile\<close> succeeds, the archive has received exactly one entry more:
  the tar writer has written, into the gzip writer, a header with the sanitized name,
  mode \<^verbatim>\<open>0600\<close> (octal) and, as its size, the length of the buffer that
  \<^verbatim>\<open>ReadAll\<close> returned, and then that buffer, byte for byte; and nothing of it is
  lost on the way: what the output has received and what the compressor still holds back
  are together, behind what the output held before, the header of the gzip stream and all
  that was written. The buffer is the whole of what the body still had to deliver (all of
  it, for a body not read before), and the body has been read to its end. And the call
  does succeed, whatever the length of the body (zero included), when the body is open and
  can be read and the tar writer, which had no error before, takes the header and the
  bytes.
\<close>

theorem writeTarFile_entry:
  "(writeTarFile E m nm r s = (s', None) \<longrightarrow>
      (\<exists>buf. snd (ReadAll r s) = Inr buf
         \<and> gw_in s' = gw_in s @
             [TarHeader \<lparr>Name = filename_of nm, Mode = 6 * 8 * 8, Size = int (length buf)\<rparr>,
              TarData buf]))
   \<and> (writeTarFile E m nm r s = (s', None) \<and> gz_ok base s \<longrightarrow>
      written s' @ gw_buf s' = base @ GzipHeader # gw_in s')
   \<and> (r < length (bodies s) \<and> b_closed (bodies s ! r) = 0 \<and> b_err (bodies s ! r) = None \<longrightarrow>
      snd (ReadAll r s) = Inr (drop (b_off (bodies s ! r)) (b_data (bodies s ! r)))
      \<and> b_eof (bodies (fst (ReadAll r s)) ! r)
      \<and> bodies (fst (writeTarFile E m nm r s)) = bodies (fst (ReadAll r s)))
   \<and> (r < length (bodies s) \<and> b_closed (bodies s ! r) = 0 \<and> b_err (bodies s ! r) = None
      \<and> tw_err s = None
      \<and> e_WriteHeader E
           \<lparr>Name = filename_of nm, Mode = 6 * 8 * 8,
            Size = int (length (drop (b_off (bodies s ! r)) (b_data (bodies s ! r))))\<rparr> = None
      \<and> e_Write E (drop (b_off (bodies s ! r)) (b_data (bodies s ! r))) = None \<longrightarrow>
      snd (writeTarFile E m nm r s) = None)"
proof -
  let ?h = "\<lambda>buf. \<lparr>Name = filename_of nm, Mode = 384, Size = int (length buf)\<rparr>"
  have a: "\<exists>buf. snd (ReadAll r s) = Inr buf
         \<and> gw_in s' = gw_in s @
             [TarHeader \<lparr>Name = filename_of nm, Mode = 6 * 8 * 8, Size = int (length buf)\<rparr>,
              TarData buf]"
    if ok: "writeTarFile E m nm r s = (s', None)"
  proof -
    from writeTarFile_ok [OF ok] obtain s1 buf where ra: "ReadAll r s = (s1, Inr buf)"
      and s': "s' = (if Verbose m then logf (''['' @ fst (ParseProfileName nm) @ ''] OK'') else id)
                    (gz_Write E (TarData buf) (gz_Write E (TarHeader (?h buf)) s1))"
      by blast
    from ReadAll_world [OF ra] have g1: "gw_in s1 = gw_in s" by (simp add: gzs_def)
    let ?s3 = "gz_Write E (TarData buf) (gz_Write E (TarHeader (?h buf)) s1)"
    have g3: "gw_in ?s3 = gw_in s @ [TarHeader (?h buf), TarData buf]"
      using g1 by (simp add: gz_Write_frame)
    have "gw_in s' = gw_in ?s3"
      unfolding s' by (simp add: logf_def)
    with g3 ra show ?thesis by simp
  qed
  have l: "written s' @ gw_buf s' = base @ GzipHeader # gw_in s'"
    if ok: "writeTarFile E m nm r s = (s', None)" and gz: "gz_ok base s"
  proof -
    from writeTarFile_ok [OF ok] obtain s1 buf where ra: "ReadAll r s = (s1, Inr buf)"
      and s': "s' = (if Verbose m then logf (''['' @ fst (ParseProfileName nm) @ ''] OK'') else id)
                    (gz_Write E (TarData buf) (gz_Write E (TarHeader (?h buf)) s1))"
      by blast
    from ReadAll_world [OF ra] ReadAll_written [OF ra] gz have "gz_ok base s1"
      by (simp add: gz_ok_cong [where s = s])
    then have "gz_ok base (gz_Write E (TarHeader (?h buf)) s1)" by (rule gz_Write_ok)
    then have k3: "gz_ok base (gz_Write E (TarData buf) (gz_Write E (TarHeader (?h buf)) s1))"
      (is "gz_ok base ?s3") by (rule gz_Write_ok)
    have h3: "gw_wroteHeader ?s3" by (simp add: gz_Write_frame)
    have "gz_ok base s' \<and> gw_wroteHeader s'"
    proof (cases "Verbose m")
      case True
      then have e: "s' = logf (''['' @ fst (ParseProfileName nm) @ ''] OK'') ?s3"
        using s' by simp
      from k3 have "gz_ok base s'"
        unfolding e by (rule gz_ok_cong [rotated 3]) (simp_all add: written_logf)
      moreover have "gw_wroteHeader s'" unfolding e using h3 by (simp add: logf_def)
      ultimately show ?thesis by simp
    next
      case False
      with s' k3 h3 show ?thesis by simp
    qed
    then show ?thesis by (simp add: gz_ok_def)
  qed
  have b: "snd (ReadAll r s) = Inr (drop (b_off (bodies s ! r)) (b_data (bodies s ! r)))
      \<and> b_eof (bodies (fst (ReadAll r s)) ! r)
      \<and> bodies (fst (writeTarFile E m nm r s)) = bodies (fst (ReadAll r s))"
    if "r < length (bodies s)" "b_closed (bodies s ! r) = 0" "b_err (bodies s ! r) = None"
    using that by (simp add: ReadAll_def Let_def writeTarFile_bodies)
  have c: "snd (writeTarFile E m nm r s) = None"
    if "r < length (bodies s)" "b_closed (bodies s ! r) = 0"
       "b_err (bodies s ! r) = None" "tw_err s = None"
       "e_WriteHeader E
           \<lparr>Name = filename_of nm, Mode = 6 * 8 * 8,
            Size = int (length (drop (b_off (bodies s ! r)) (b_data (bodies s ! r))))\<rparr> = None"
       "e_Write E (drop (b_off (bodies s ! r)) (b_data (bodies s ! r))) = None"
  proof -
    let ?buf = "drop (b_off (bodies s ! r)) (b_data (bodies s ! r))"
    let ?s1 = "s\<lparr>bodies := (bodies s)[r := (bodies s ! r)
                  \<lparr>b_off := length (b_data (bodies s ! r)), b_eof := True\<rparr>]\<rparr>"
    have ra: "ReadAll r s = (?s1, Inr ?buf)"
      using that by (simp add: ReadAll_def Let_def)
    have t1: "tw_err ?s1 = None" using that by simp
    have wh: "WriteHeader E (?h ?buf) ?s1 = (gz_Write E (TarHeader (?h ?buf)) ?s1, None)"
      using that t1 by (simp add: WriteHeader_def)
    have t2: "tw_err (gz_Write E (TarHeader (?h ?buf)) ?s1) = None"
      using gz_Write_frame [of E "TarHeader (?h ?buf)" ?s1] t1 by (simp add: errs_def)
    have wd: "snd (Write E ?buf (gz_Write E (TarHeader (?h ?buf)) ?s1)) = None"
      using that t2 by (simp add: Write_def)
    from ra wh wd show ?thesis
      by (auto simp: writeTarFile_def Let_def split: prod.splits option.splits)
  qed
  from a l b c show ?thesis by blast
qed

theorem writeTarFile_entry_witness:
  "gw_in (fst (writeTarFile env1 NewMain ''empty'' 0 (fetched1 ''empty'')))
     = [TarHeader \<lparr>Name = ''empty'', Mode = 384, Size = 0\<rparr>, TarData []]
   \<and> snd (writeTarFile env1 NewMain ''empty'' 0 (fetched1 ''empty'')) = None
   \<and> gw_in (fst (writeTarFile env1 NewMain ''heap?gc=1'' 0 (fetched1 ''heap?gc=1'')))
     = [TarHeader \<lparr>Name = ''heap-gc-1'', Mode = 384, Size = 3\<rparr>, TarData ''abc'']
   \<and> stdout (fst (writeTarFile env1 NewMain ''heap?gc=1'' 0 (fetched1 ''heap?gc=1'')))
       @ gw_buf (fst (writeTarFile env1 NewMain ''heap?gc=1'' 0 (fetched1 ''heap?gc=1'')))
     = [GzipHeader, TarHeader \<lparr>Name = ''heap-gc-1'', Mode = 384, Size = 3\<rparr>, TarData ''abc'']"
proof -
  have e0: "snd (writeTarFile env1 NewMain ''empty'' 0 (fetched1 ''empty'')) = None"
    using writeTarFile_entry [where E = env1 and m = NewMain and nm = "''empty''" and r = 0
        and s = "fetched1 ''empty''"]
    by (simp add: eval_defs)
  then have e1: "writeTarFile env1 NewMain ''empty'' 0 (fetched1 ''empty'')
      = (fst (writeTarFile env1 NewMain ''empty'' 0 (fetched1 ''empty'')), None)"
    by (metis prod.collapse)
  have e2: "gw_in (fst (writeTarFile env1 NewMain ''empty'' 0 (fetched1 ''empty'')))
     = [TarHeader \<lparr>Name = ''empty'', Mode = 384, Size = 0\<rparr>, TarData []]"
    using e1 writeTarFile_entry [where E = env1 and m = NewMain and nm = "''empty''" and r = 0
        and s = "fetched1 ''empty''"
        and s' = "fst (writeTarFile env1 NewMain ''empty'' 0 (fetched1 ''empty''))"]
    by (simp add: eval_defs)
  have h0: "snd (writeTarFile env1 NewMain ''heap?gc=1'' 0 (fetched1 ''heap?gc=1'')) = None"
    using writeTarFile_entry [where E = env1 and m = NewMain and nm = "''heap?gc=1''" and r = 0
        and s = "fetched1 ''heap?gc=1''"]
    by (simp add: eval_defs)
  then have h1: "writeTarFile env1 NewMain ''heap?gc=1'' 0 (fetched1 ''heap?gc=1'')
      = (fst (writeTarFile env1 NewMain ''heap?gc=1'' 0 (fetched1 ''heap?gc=1'')), None)"
    by (metis prod.collapse)
  have h2: "gw_in (fst (writeTarFile env1 NewMain ''heap?gc=1'' 0 (fetched1 ''heap?gc=1'')))
     = [TarHeader \<lparr>Name = ''heap-gc-1'', Mode = 384, Size = 3\<rparr>, TarData ''abc'']"
    using h1 writeTarFile_entry [where E = env1 and m = NewMain and nm = "''heap?gc=1''" and r = 0
        and s = "fetched1 ''heap?gc=1''"
        and s' = "fst (writeTarFile env1 NewMain ''heap?gc=1'' 0 (fetched1 ''heap?gc=1''))"]
    by (simp add: eval_defs)
  have g: "gz_ok [] (fetched1 ''heap?gc=1'')"
    by (simp add: gz_ok_def eval_defs)
  have k: "sink (fst (writeTarFile env1 NewMain ''heap?gc=1'' 0 (fetched1 ''heap?gc=1'')))
      = W_Stdout"
    by (simp add: eval_defs)
  from h1 g writeTarFile_entry [where E = env1 and m = NewMain and nm = "''heap?gc=1''"
        and r = 0 and s = "fetched1 ''heap?gc=1''" and base = "[]"
        and s' = "fst (writeTarFile env1 NewMain ''heap?gc=1'' 0 (fetched1 ''heap?gc=1''))"]
  have "written (fst (writeTarFile env1 NewMain ''heap?gc=1'' 0 (fetched1 ''heap?gc=1'')))
       @ gw_buf (fst (writeTarFile env1 NewMain ''heap?gc=1'' 0 (fetched1 ''heap?gc=1'')))
     = [] @ GzipHeader
         # gw_in (fst (writeTarFile env1 NewMain ''heap?gc=1'' 0 (fetched1 ''heap?gc=1'')))"
    by blast
  with h2 k have h3:
    "stdout (fst (writeTarFile env1 NewMain ''heap?gc=1'' 0 (fetched1 ''heap?gc=1'')))
       @ gw_buf (fst (writeTarFile env1 NewMain ''heap?gc=1'' 0 (fetched1 ''heap?gc=1'')))
     = [GzipHeader, TarHeader \<lparr>Name = ''heap-gc-1'', Mode = 384, Size = 3\<rparr>, TarData ''abc'']"
    by (simp add: written_def)
  from e0 e2 h2 h3 show ?thesis by simp
qed
subsection \<open>What each function leaves as it is\<close>

lemma fetchProfile_frame:
  "ctl (fst (fetchProfile E m nm s)) = ctl s \<and> outw (fst (fetchProfile E m nm s)) = outw s
   \<and> wrs (fst (fetchProfile E m nm s)) = wrs s \<and> errs (fst (fetchProfile E m nm s)) = errs s
   \<and> gzs (fst (fetchProfile E m nm s)) = gzs s"
  by (simp add: fetchProfile_def Let_def logf_def Body_Close_def ctl_def outw_def wrs_def errs_def
      gzs_def split: sum.splits)

lemma ReadAll_frame:
  "ctl (fst (ReadAll r s)) = ctl s \<and> outw (fst (ReadAll r s)) = outw s
   \<and> wrs (fst (ReadAll r s)) = wrs s \<and> errs (fst (ReadAll r s)) = errs s
   \<and> requests (fst (ReadAll r s)) = requests s \<and> stderr (fst (ReadAll r s)) = stderr s
   \<and> gzs (fst (ReadAll r s)) = gzs s"
  by (simp add: ReadAll_def Let_def ctl_def outw_def wrs_def errs_def gzs_def
      split: option.splits)

lemma WriteHeader_frame:
  "ctl (fst (WriteHeader E h s)) = ctl s \<and> wrs (fst (WriteHeader E h s)) = wrs s
   \<and> requests (fst (WriteHeader E h s)) = requests s \<and> stderr (fst (WriteHeader E h s)) = stderr s
   \<and> bodies (fst (WriteHeader E h s)) = bodies s"
  using gz_Write_frame [of E "TarHeader h" s] gz_pass_frame [of E s]
  by (simp add: WriteHeader_def ctl_def wrs_def split: option.splits)

lemma Write_frame:
  "ctl (fst (Write E b s)) = ctl s \<and> wrs (fst (Write E b s)) = wrs s
   \<and> requests (fst (Write E b s)) = requests s \<and> stderr (fst (Write E b s)) = stderr s
   \<and> bodies (fst (Write E b s)) = bodies s"
  using gz_Write_frame [of E "TarData b" s] gz_pass_frame [of E s]
  by (simp add: Write_def ctl_def wrs_def split: option.splits)


lemma logf_frame:
  "ctl (logf l s) = ctl s \<and> wrs (logf l s) = wrs s \<and> errs (logf l s) = errs s
   \<and> outw (logf l s) = outw s \<and> requests (logf l s) = requests s \<and> bodies (logf l s) = bodies s
   \<and> gzs (logf l s) = gzs s"
  by (simp add: logf_def ctl_def wrs_def errs_def outw_def gzs_def)

lemma writeTarFile_frame:
  "ctl (fst (writeTarFile E m nm r s)) = ctl s \<and> wrs (fst (writeTarFile E m nm r s)) = wrs s
   \<and> requests (fst (writeTarFile E m nm r s)) = requests s"
proof -
  obtain a ra where ra: "ReadAll r s = (a, ra)" by (cases "ReadAll r s")
  from ReadAll_frame [of r s] ra
  have fa: "ctl a = ctl s" "wrs a = wrs s" "requests a = requests s" by simp_all
  show ?thesis
  proof (cases ra)
    case (Inl e)
    with ra fa show ?thesis by (simp add: writeTarFile_def)
  next
    case (Inr buf)
    let ?h = "\<lparr>Name = filename_of nm, Mode = 384, Size = int (length buf)\<rparr>"
    obtain b rb where wh: "WriteHeader E ?h a = (b, rb)" by (cases "WriteHeader E ?h a")
    obtain c rc where wd: "Write E buf b = (c, rc)" by (cases "Write E buf b")
    from WriteHeader_frame [of E ?h a] wh fa
    have fb: "ctl b = ctl s" "wrs b = wrs s" "requests b = requests s" by simp_all
    from Write_frame [of E buf b] wd fb
    have fc: "ctl c = ctl s" "wrs c = wrs s" "requests c = requests s" by simp_all
    from ra Inr wh wd fb fc show ?thesis
      by (simp add: writeTarFile_def Let_def logf_frame split: option.splits)
  qed
qed


lemma Run_output_frame:
  "ctl (fst (Run_output E m s)) = ctl s \<and> errs (fst (Run_output E m s)) = errs s
   \<and> requests (fst (Run_output E m s)) = requests s \<and> bodies (fst (Run_output E m s)) = bodies s
   \<and> stderr (fst (Run_output E m s)) = stderr s \<and> stdout (fst (Run_output E m s)) = stdout s
   \<and> successN (fst (Run_output E m s)) = successN s \<and> gzs (fst (Run_output E m s)) = gzs s"
  by (simp add: Run_output_def ctl_def errs_def gzs_def split: option.splits)

lemma tw_Close_frame:
  "ctl (fst (tw_Close E s)) = ctl s \<and> requests (fst (tw_Close E s)) = requests s
   \<and> bodies (fst (tw_Close E s)) = bodies s \<and> stderr (fst (tw_Close E s)) = stderr s
   \<and> successN (fst (tw_Close E s)) = successN s \<and> sink (fst (tw_Close E s)) = sink s"
  using gz_Write_frame [of E TarEnd "s\<lparr>tw_closed := True\<rparr>"] gz_pass_frame [of E s]
  by (simp add: tw_Close_def ctl_def wrs_def split: option.splits)

lemma gw_Close_frame:
  "ctl (fst (gw_Close E s)) = ctl s \<and> requests (fst (gw_Close E s)) = requests s
   \<and> bodies (fst (gw_Close E s)) = bodies s \<and> stderr (fst (gw_Close E s)) = stderr s
   \<and> successN (fst (gw_Close E s)) = successN s \<and> sink (fst (gw_Close E s)) = sink s"
  by (simp add: gw_Close_def gz_pass_def put_def ctl_def split: option.splits writer.splits)

lemma w_Close_frame:
  "ctl (fst (w_Close E s)) = ctl s \<and> requests (fst (w_Close E s)) = requests s
   \<and> bodies (fst (w_Close E s)) = bodies s \<and> stderr (fst (w_Close E s)) = stderr s
   \<and> successN (fst (w_Close E s)) = successN s \<and> sink (fst (w_Close E s)) = sink s
   \<and> outw (fst (w_Close E s)) = outw s \<and> errs (fst (w_Close E s)) = errs s"
  by (simp add: w_Close_def ctl_def outw_def errs_def split: writer.splits)

lemma deferred_frame:
  "ctl (deferred E s) = ctl s \<and> requests (deferred E s) = requests s
   \<and> bodies (deferred E s) = bodies s \<and> stderr (deferred E s) = stderr s
   \<and> successN (deferred E s) = successN s"
proof -
  let ?a = "fst (tw_Close E s)"
  let ?b = "fst (gw_Close E ?a)"
  have "ctl ?b = ctl s" "requests ?b = requests s" "bodies ?b = bodies s" "stderr ?b = stderr s"
    "successN ?b = successN s"
    by (simp_all add: tw_Close_frame gw_Close_frame)
  then show ?thesis
    by (simp add: deferred_def Let_def ctl_def split: writer.splits)
qed

lemma Remove_frame:
  "ctl (fst (Remove E p s)) = ctl s \<and> requests (fst (Remove E p s)) = requests s
   \<and> bodies (fst (Remove E p s)) = bodies s \<and> stderr (fst (Remove E p s)) = stderr s
   \<and> successN (fst (Remove E p s)) = successN s \<and> wrs (fst (Remove E p s)) = wrs s
   \<and> errs (fst (Remove E p s)) = errs s \<and> gzs (fst (Remove E p s)) = gzs s
   \<and> stdout (fst (Remove E p s)) = stdout s"
  by (simp add: Remove_def ctl_def wrs_def errs_def gzs_def split: option.splits)

lemma Run_finish_frame:
  "ctl (fst (Run_finish E m s)) = ctl s \<and> requests (fst (Run_finish E m s)) = requests s
   \<and> bodies (fst (Run_finish E m s)) = bodies s \<and> successN (fst (Run_finish E m s)) = successN s"
proof -
  obtain a ra where a: "tw_Close E s = (a, ra)" by (cases "tw_Close E s")
  obtain b rb where b: "gw_Close E a = (b, rb)" by (cases "gw_Close E a")
  obtain c rc where c: "w_Close E b = (c, rc)" by (cases "w_Close E b")
  from tw_Close_frame [of E s] a
  have fa: "ctl a = ctl s" "requests a = requests s" "bodies a = bodies s" "successN a = successN s"
    by simp_all
  from gw_Close_frame [of E a] b fa
  have fb: "ctl b = ctl s" "requests b = requests s" "bodies b = bodies s" "successN b = successN s"
    by simp_all
  from w_Close_frame [of E b] c fb
  have fc: "ctl c = ctl s" "requests c = requests s" "bodies c = bodies s" "successN c = successN s"
    by simp_all
  from a b c fa fb fc show ?thesis
    by (simp add: Run_finish_def deferred_frame Remove_frame logf_frame split: option.splits)
       (simp add: logf_def)
qed

subsection \<open>Closing the response bodies\<close>

text \<open>
  \<open>writeTarFile\<close> holds no \<^verbatim>\<open>Close\<close> call, and neither does the loop that calls
  it: the number of \<^verbatim>\<open>Close\<close> calls on every body is what it was before.
\<close>

lemma ReadAll_b_closed:
  "map b_closed (bodies (fst (ReadAll r s))) = map b_closed (bodies s)"
  by (simp add: ReadAll_def Let_def map_update list_update_same_conv split: option.splits)

lemma writeTarFile_b_closed:
  "map b_closed (bodies (fst (writeTarFile E m nm r s))) = map b_closed (bodies s)"
  by (simp add: writeTarFile_bodies ReadAll_b_closed)

lemma fetchProfile_bodies:
  "list_all unread_or_open (bodies s) \<Longrightarrow>
     list_all unread_or_open (bodies (fst (fetchProfile E m nm s)))"
  by (simp add: fetchProfile_def Let_def logf_def Body_Close_def new_body_def unread_or_open_def
      nth_append split: sum.splits)

lemma ReadAll_bodies:
  assumes "list_all unread_or_open (bodies s)"
  shows "list_all unread_or_open (bodies (fst (ReadAll r s)))"
proof (cases "r < length (bodies s)")
  case False
  then show ?thesis using assms by (simp add: ReadAll_def)
next
  case True
  with assms have "unread_or_open (bodies s ! r)" by (simp add: list_all_length)
  with assms True show ?thesis
    by (auto simp: ReadAll_def Let_def list_all_length nth_list_update unread_or_open_def
        split: option.splits)
qed

lemma writeTarFile_bodies_ok:
  "list_all unread_or_open (bodies s) \<Longrightarrow>
     list_all unread_or_open (bodies (fst (writeTarFile E m nm r s)))"
  by (simp add: writeTarFile_bodies ReadAll_bodies)

lemma step_bodies:
  assumes "list_all unread_or_open (bodies s)"
  shows "list_all unread_or_open (bodies (step E m s mv))"
proof (cases mv)
  case G_main
  have "bodies (main_step E m s) = bodies s"
  proof (cases "main_pc s")
    case (M_Fetch rest)
    then show ?thesis by (cases rest) (simp_all add: main_step_def Let_def logf_def)
  next
    case M_Output
    with Run_output_frame [of E m s] show ?thesis
      by (auto simp: main_step_def split: prod.splits option.splits)
  next
    case M_Range
    with Run_finish_frame [of E m s] show ?thesis
      by (auto simp: main_step_def split: prod.splits)
  next
    case (M_Return res)
    then show ?thesis by (simp add: main_step_def)
  qed
  with G_main assms show ?thesis by simp
next
  case (G_task i)
  from fetchProfile_bodies [OF assms, of E m "t_name (tasks s ! i)"] assms G_task
  show ?thesis
    by (auto simp: task_step_def split: task_pc.splits prod.splits option.splits)
next
  case (G_recv i)
  show ?thesis
  proof (cases "main_pc s = M_Range \<and> i < length (tasks s)")
    case False
    with G_recv assms show ?thesis by (auto simp: recv_step_def)
  next
    case True
    show ?thesis
    proof (cases "t_pc (tasks s ! i)")
      case (T_Send x)
      let ?s1 = "s\<lparr>tasks := (tasks s)[i := (tasks s ! i)\<lparr>t_pc := T_Exit\<rparr>]\<rparr>"
      obtain a r where wt: "writeTarFile E m (name x) (ReadCloser x) ?s1 = (a, r)"
        by (cases "writeTarFile E m (name x) (ReadCloser x) ?s1")
      from writeTarFile_bodies_ok [of ?s1 E m "name x" "ReadCloser x"] assms wt
      have "list_all unread_or_open (bodies a)" by simp
      with G_recv True T_Send wt show ?thesis
        by (simp add: recv_step_def Let_def logf_def split: option.splits)
    qed (use G_recv True assms in \<open>simp_all add: recv_step_def\<close>)
  qed
next
  case G_closer
  with assms show ?thesis by (simp add: closer_step_def split: closer_pc.splits)
qed

text \<open>
  In every run, every body is such that it has never been closed, or was closed once by
  \<open>fetchProfile\<close> without a byte of it read: no body that was read has been closed.
\<close>

lemma Run_bodies:
  "list_all unread_or_open (bodies ini) \<Longrightarrow> list_all unread_or_open (bodies (Run E m sched ini))"
proof -
  have "list_all unread_or_open (bodies s) \<Longrightarrow>
      list_all unread_or_open (bodies (foldl (step E m) s sched))" for s
    by (induction sched arbitrary: s) (simp_all add: step_bodies)
  then show "list_all unread_or_open (bodies ini) \<Longrightarrow> ?thesis"
    by (simp add: Run_def Run_init_def)
qed

text \<open>
  C2. The claim: the Archive Writer reads every body it is handed to the end and then
  closes it exactly once. It does read it to the end, and never closes it, in any run
  (\<open>writeTarFile_b_closed\<close>, \<open>Run_bodies\<close>). A run with the
  one profile \<^verbatim>\<open>heap\<close>, fetched with status 200 and the body \<^verbatim>\<open>abc\<close>:
  \<open>Run\<close> returns \<^verbatim>\<open>nil\<close>, the entry is in the archive, the body was read to its
  end, and \<^verbatim>\<open>Close\<close> was called on it zero times.
\<close>

theorem Run_leaves_body_open:
  "main_pc (Run env1 (main1 [''heap''] [])
      [G_main, G_main, G_main, G_task 0, G_recv 0, G_task 0, G_closer, G_closer, G_main]
      world0) = M_Return None
   \<and> bodies (Run env1 (main1 [''heap''] [])
      [G_main, G_main, G_main, G_task 0, G_recv 0, G_task 0, G_closer, G_closer, G_main]
      world0) = [\<lparr>b_data = ''abc'', b_err = None, b_off = 3, b_eof = True, b_closed = 0\<rparr>]
   \<and> stdout (Run env1 (main1 [''heap''] [])
      [G_main, G_main, G_main, G_task 0, G_recv 0, G_task 0, G_closer, G_closer, G_main]
      world0) = [GzipHeader, TarHeader \<lparr>Name = ''heap'', Mode = 384, Size = 3\<rparr>,
                 TarData ''abc'', TarEnd, GzipEnd]"
  by (simp add: eval_defs)

subsection \<open>The goroutines keep their invariant\<close>

lemma pending_append: "pending (ts @ [t]) = pending ts + (if t_pc t \<noteq> T_Done then 1 else 0)"
  by (simp add: pending_def)

lemma pending_update:
  "i < length ts \<Longrightarrow>
   pending (ts[i := t]) + (if t_pc (ts ! i) \<noteq> T_Done then 1 else 0)
     = pending ts + (if t_pc t \<noteq> T_Done then 1 else 0)"
proof (induction ts arbitrary: i)
  case Nil
  then show ?case by simp
next
  case (Cons a ts)
  show ?case
  proof (cases i)
    case 0
    then show ?thesis by (simp add: pending_def)
  next
    case (Suc j)
    with Cons.prems have "j < length ts" by simp
    from Cons.IH [OF this] Suc show ?thesis by (simp add: pending_def)
  qed
qed

lemma pending_zero: "pending ts = 0 \<longleftrightarrow> (\<forall>t \<in> set ts. t_pc t = T_Done)"
  by (auto simp: pending_def filter_empty_conv)

lemma map_t_name_update: "map t_name (ts[i := (ts ! i)\<lparr>t_pc := p\<rparr>]) = map t_name ts"
proof (rule nth_equalityI)
  show "length (map t_name (ts[i := (ts ! i)\<lparr>t_pc := p\<rparr>])) = length (map t_name ts)"
    by simp
next
  fix k
  assume "k < length (map t_name (ts[i := (ts ! i)\<lparr>t_pc := p\<rparr>]))"
  then have "k < length ts" by simp
  then show "map t_name (ts[i := (ts ! i)\<lparr>t_pc := p\<rparr>]) ! k = map t_name ts ! k"
    by (cases "k = i") simp_all
qed

lemma inv_ctl_init: "inv_ctl m (Run_init m s0)"
  by (simp add: inv_ctl_def Run_init_def pending_def)

lemma inv_ctl_cong: "ctl s' = ctl s \<Longrightarrow> inv_ctl m s \<Longrightarrow> inv_ctl m s'"
  by (auto simp: inv_ctl_def ctl_def split: main_pc.splits)

lemma inv_ctl_closer: "inv_ctl m s \<Longrightarrow> inv_ctl m (closer_step s)"
  by (auto simp: inv_ctl_def closer_step_def split: closer_pc.splits main_pc.splits)

lemma inv_ctl_main: 
  assumes "inv_ctl m s" shows "inv_ctl m (main_step E m s)"
proof (cases "main_pc s")
  case (M_Fetch rest)
  show ?thesis
  proof (cases rest)
    case Nil
    with M_Fetch assms show ?thesis
      by (auto simp: inv_ctl_def main_step_def)
  next
    case (Cons nm rest')
    with M_Fetch assms show ?thesis
      by (auto simp: inv_ctl_def main_step_def logf_def Let_def pending_append nth_append)
  qed
next
  case M_Output
  obtain a r where ro: "Run_output E m s = (a, r)" by (cases "Run_output E m s")
  with Run_output_frame [of E m s] have "ctl a = ctl s" by simp
  then have "tasks a = tasks s" "wg a = wg s" "closer_pc a = closer_pc s" "chan_closed a = chan_closed s"
    by (simp_all add: ctl_def)
  with M_Output assms ro show ?thesis
    by (cases r) (auto simp: inv_ctl_def main_step_def)
next
  case M_Range
  obtain a r where rf: "Run_finish E m s = (a, r)" by (cases "Run_finish E m s")
  with Run_finish_frame [of E m s] have "ctl a = ctl s" by simp
  then have "tasks a = tasks s" "wg a = wg s" "closer_pc a = closer_pc s" "chan_closed a = chan_closed s"
    by (simp_all add: ctl_def)
  with M_Range assms rf show ?thesis
    by (auto simp: inv_ctl_def main_step_def)
next
  case (M_Return res)
  with assms show ?thesis by (simp add: main_step_def)
qed


lemma inv_ctlD:
  assumes "inv_ctl m s"
  shows "wg s = int (pending (tasks s))"
    and "\<And>rest. main_pc s = M_Fetch rest \<Longrightarrow>
           map t_name (tasks s) @ rest = ProfileNames m \<and> closer_pc s = C_None"
    and "(\<forall>rest. main_pc s \<noteq> M_Fetch rest) \<Longrightarrow>
           map t_name (tasks s) = ProfileNames m \<and> closer_pc s \<noteq> C_None"
    and "closer_pc s = C_Close \<or> closer_pc s = C_Done \<Longrightarrow> wg s = 0"
    and "chan_closed s \<Longrightarrow> closer_pc s = C_Done"
    and "\<And>j r. j < length (tasks s) \<Longrightarrow> t_pc (tasks s ! j) = T_Send r \<Longrightarrow>
           name r = t_name (tasks s ! j)"
  using assms by (auto simp: inv_ctl_def split: main_pc.splits)

lemma inv_ctlI:
  assumes "wg s = int (pending (tasks s))"
    and "case main_pc s of
            M_Fetch rest \<Rightarrow> map t_name (tasks s) @ rest = ProfileNames m \<and> closer_pc s = C_None
          | _ \<Rightarrow> map t_name (tasks s) = ProfileNames m \<and> closer_pc s \<noteq> C_None"
    and "closer_pc s = C_Close \<or> closer_pc s = C_Done \<Longrightarrow> wg s = 0"
    and "chan_closed s \<Longrightarrow> closer_pc s = C_Done"
    and "\<And>j r. j < length (tasks s) \<Longrightarrow> t_pc (tasks s ! j) = T_Send r \<Longrightarrow>
           name r = t_name (tasks s ! j)"
  shows "inv_ctl m s"
  using assms unfolding inv_ctl_def by blast

lemma inv_ctl_names:
  assumes "inv_ctl m s"
  shows "case main_pc s of
            M_Fetch rest \<Rightarrow> map t_name (tasks s) @ rest = ProfileNames m \<and> closer_pc s = C_None
          | _ \<Rightarrow> map t_name (tasks s) = ProfileNames m \<and> closer_pc s \<noteq> C_None"
  using assms by (simp add: inv_ctl_def)

text \<open>A goroutine that has not ended moves to another place where it has not ended.\<close>

lemma inv_ctl_update:
  assumes inv: "inv_ctl m s" and i: "i < length (tasks s)"
    and p: "p \<noteq> T_Done" and q: "t_pc (tasks s ! i) \<noteq> T_Done"
    and nm: "\<And>x. p = T_Send x \<Longrightarrow> name x = t_name (tasks s ! i)"
  shows "inv_ctl m (s\<lparr>tasks := (tasks s)[i := (tasks s ! i)\<lparr>t_pc := p\<rparr>]\<rparr>)"
proof (rule inv_ctlI)
  let ?ts = "(tasks s)[i := (tasks s ! i)\<lparr>t_pc := p\<rparr>]"
  let ?s = "s\<lparr>tasks := ?ts\<rparr>"
  have pd: "pending ?ts = pending (tasks s)"
    using pending_update [OF i, of "(tasks s ! i)\<lparr>t_pc := p\<rparr>"] p q by simp
  show "wg ?s = int (pending (tasks ?s))"
    using inv_ctlD(1) [OF inv] pd by simp
  show "case main_pc ?s of
            M_Fetch rest \<Rightarrow> map t_name (tasks ?s) @ rest = ProfileNames m \<and> closer_pc ?s = C_None
          | _ \<Rightarrow> map t_name (tasks ?s) = ProfileNames m \<and> closer_pc ?s \<noteq> C_None"
    using inv_ctl_names [OF inv] by (simp add: map_t_name_update split: main_pc.splits)
  show "wg ?s = 0" if "closer_pc ?s = C_Close \<or> closer_pc ?s = C_Done"
    using inv_ctlD(4) [OF inv] that by simp
  show "closer_pc ?s = C_Done" if "chan_closed ?s"
    using inv_ctlD(5) [OF inv] that by simp
  show "name r = t_name (tasks ?s ! j)" if "j < length (tasks ?s)" "t_pc (tasks ?s ! j) = T_Send r"
    for j r
  proof (cases "j = i")
    case True
    with that i nm show ?thesis by simp
  next
    case False
    with that inv_ctlD(6) [OF inv, of j r] show ?thesis by simp
  qed
qed

text \<open>A goroutine ends: \<^verbatim>\<open>wg.Done()\<close>.\<close>

lemma inv_ctl_done:
  assumes inv: "inv_ctl m s" and i: "i < length (tasks s)" and q: "t_pc (tasks s ! i) = T_Exit"
  shows "inv_ctl m (s\<lparr>tasks := (tasks s)[i := (tasks s ! i)\<lparr>t_pc := T_Done\<rparr>], wg := wg s - 1\<rparr>)"
proof (rule inv_ctlI)
  let ?ts = "(tasks s)[i := (tasks s ! i)\<lparr>t_pc := T_Done\<rparr>]"
  let ?s = "s\<lparr>tasks := ?ts, wg := wg s - 1\<rparr>"
  have pd: "pending ?ts + 1 = pending (tasks s)"
    using pending_update [OF i, of "(tasks s ! i)\<lparr>t_pc := T_Done\<rparr>"] q by simp
  from nth_mem [OF i] q have "\<exists>t \<in> set (tasks s). t_pc t \<noteq> T_Done"
    by force
  then have live: "pending (tasks s) \<noteq> 0"
    by (simp add: pending_zero)
  with inv_ctlD(1,4,5) [OF inv]
  have nc: "closer_pc s \<noteq> C_Close" "closer_pc s \<noteq> C_Done" "\<not> chan_closed s"
    by auto
  show "wg ?s = int (pending (tasks ?s))"
    using inv_ctlD(1) [OF inv] pd by simp
  show "case main_pc ?s of
            M_Fetch rest \<Rightarrow> map t_name (tasks ?s) @ rest = ProfileNames m \<and> closer_pc ?s = C_None
          | _ \<Rightarrow> map t_name (tasks ?s) = ProfileNames m \<and> closer_pc ?s \<noteq> C_None"
    using inv_ctl_names [OF inv] by (simp add: map_t_name_update split: main_pc.splits)
  show "wg ?s = 0" if "closer_pc ?s = C_Close \<or> closer_pc ?s = C_Done"
    using nc that by simp
  show "closer_pc ?s = C_Done" if "chan_closed ?s"
    using nc that by simp
  show "name r = t_name (tasks ?s ! j)" if "j < length (tasks ?s)" "t_pc (tasks ?s ! j) = T_Send r"
    for j r
  proof (cases "j = i")
    case True
    with that i show ?thesis by simp
  next
    case False
    with that inv_ctlD(6) [OF inv, of j r] show ?thesis by simp
  qed
qed

lemma fetchProfile_name:
  "snd (fetchProfile E m nm s) = Some x \<Longrightarrow> name x = nm"
  by (auto simp: fetchProfile_def Let_def split: sum.splits if_splits)

lemma inv_ctl_task:
  assumes "inv_ctl m s" shows "inv_ctl m (task_step E m i s)"
proof (cases "i < length (tasks s)")
  case False
  with assms show ?thesis by (simp add: task_step_def)
next
  case i: True
  show ?thesis
  proof (cases "t_pc (tasks s ! i)")
    case T_Start
    obtain a r where fp: "fetchProfile E m (t_name (tasks s ! i)) s = (a, r)"
      by (cases "fetchProfile E m (t_name (tasks s ! i)) s")
    with fetchProfile_frame [of E m "t_name (tasks s ! i)" s] have ca: "ctl a = ctl s" by simp
    then have ta: "tasks a = tasks s" by (simp add: ctl_def)
    let ?p = "case r of Some x \<Rightarrow> T_Send x | None \<Rightarrow> T_Exit"
    have st: "task_step E m i s = a\<lparr>tasks := (tasks s)[i := (tasks s ! i)\<lparr>t_pc := ?p\<rparr>]\<rparr>"
      using i T_Start fp ta by (simp add: task_step_def split: option.splits)
    have "inv_ctl m (s\<lparr>tasks := (tasks s)[i := (tasks s ! i)\<lparr>t_pc := ?p\<rparr>]\<rparr>)"
    proof (rule inv_ctl_update [OF assms i])
      show "?p \<noteq> T_Done" by (simp split: option.splits)
      show "t_pc (tasks s ! i) \<noteq> T_Done" using T_Start by simp
      show "name x = t_name (tasks s ! i)" if "?p = T_Send x" for x
        using that fp fetchProfile_name [of E m "t_name (tasks s ! i)" s x]
        by (simp split: option.splits)
    qed
    moreover have "ctl (task_step E m i s)
        = ctl (s\<lparr>tasks := (tasks s)[i := (tasks s ! i)\<lparr>t_pc := ?p\<rparr>]\<rparr>)"
      unfolding st using ca by (simp add: ctl_def)
    ultimately show ?thesis using inv_ctl_cong by blast
  next
    case (T_Send x)
    with assms i show ?thesis by (simp add: task_step_def)
  next
    case T_Exit
    have st: "task_step E m i s
        = s\<lparr>tasks := (tasks s)[i := (tasks s ! i)\<lparr>t_pc := T_Done\<rparr>], wg := wg s - 1\<rparr>"
      using i T_Exit by (simp add: task_step_def)
    show ?thesis unfolding st by (rule inv_ctl_done [OF assms i T_Exit])
  next
    case T_Done
    with assms i show ?thesis by (simp add: task_step_def)
  qed
qed

lemma inv_ctl_recv:
  assumes "inv_ctl m s" shows "inv_ctl m (recv_step E m i s)"
proof (cases "main_pc s = M_Range \<and> i < length (tasks s)")
  case False
  with assms show ?thesis by (auto simp: recv_step_def)
next
  case True
  then have i: "i < length (tasks s)" and mr: "main_pc s = M_Range" by simp_all
  show ?thesis
  proof (cases "t_pc (tasks s ! i)")
    case (T_Send x)
    let ?s1 = "s\<lparr>tasks := (tasks s)[i := (tasks s ! i)\<lparr>t_pc := T_Exit\<rparr>]\<rparr>"
    have i1: "inv_ctl m ?s1"
      by (rule inv_ctl_update [OF assms i]) (simp_all add: T_Send)
    obtain a r where wt: "writeTarFile E m (name x) (ReadCloser x) ?s1 = (a, r)"
      by (cases "writeTarFile E m (name x) (ReadCloser x) ?s1")
    with writeTarFile_frame [of E m "name x" "ReadCloser x" ?s1] have ca: "ctl a = ctl ?s1" by simp
    have "ctl (recv_step E m i s) = ctl a"
      using True T_Send wt
      by (simp add: recv_step_def Let_def logf_frame split: option.splits) (simp add: ctl_def)
    with ca have "ctl (recv_step E m i s) = ctl ?s1" by simp
    then show ?thesis using i1 by (rule inv_ctl_cong)
  qed (use assms True in \<open>simp_all add: recv_step_def\<close>)
qed

lemma inv_ctl_step: "inv_ctl m s \<Longrightarrow> inv_ctl m (step E m s mv)"
  by (cases mv) (simp_all add: inv_ctl_main inv_ctl_task inv_ctl_recv inv_ctl_closer)

lemma inv_ctl_foldl: "inv_ctl m s \<Longrightarrow> inv_ctl m (foldl (step E m) s sched)"
  by (induction sched arbitrary: s) (simp_all add: inv_ctl_step)

lemma inv_ctl_Run: "inv_ctl m (Run E m sched s0)"
  unfolding Run_def by (rule inv_ctl_foldl) (rule inv_ctl_init)

subsection \<open>The output keeps its invariant\<close>

lemma gz_ok_fields:
  "sink s' = sink s \<Longrightarrow> stdout s' = stdout s \<Longrightarrow> files s' = files s \<Longrightarrow> gzs s' = gzs s \<Longrightarrow>
   gz_ok base s \<Longrightarrow> gz_ok base s'"
  by (rule gz_ok_cong [where s = s]) (simp_all add: written_def sink_open_def split: writer.splits)

lemma inv_range_cong:
  assumes "outw s' = outw s" "wrs s' = wrs s" "errs s' = errs s" "gzs s' = gzs s"
    and ir: "inv_range E m s0 s"
  shows "inv_range E m s0 s'"
proof -
  from assms(1-4) have f: "stdout s' = stdout s" "files s' = files s" "sink s' = sink s"
    "tw_closed s' = tw_closed s" "gw_closed s' = gw_closed s" "successN s' = successN s"
    "tw_err s' = tw_err s" "gw_err s' = gw_err s" "gw_wroteHeader s' = gw_wroteHeader s"
    by (simp_all add: outw_def wrs_def errs_def gzs_def)
  from ir have "gz_ok (if OutputPath m = [] then stdout s0 else []) s"
    by (simp add: inv_range_def)
  then have "gz_ok (if OutputPath m = [] then stdout s0 else []) s'"
    by (rule gz_ok_fields [OF f(3) f(1) f(2) assms(4)])
  moreover from ir f(7) have "tw_err_ok E s'" by (simp add: inv_range_def tw_err_ok_def)
  ultimately show ?thesis
    using ir f by (simp add: inv_range_def)
qed

lemma inv_out_cong:
  assumes "main_pc s' = main_pc s" "outw s' = outw s" "wrs s' = wrs s" "errs s' = errs s"
    "gzs s' = gzs s" and io: "inv_out E m s0 s"
  shows "inv_out E m s0 s'"
proof (cases "main_pc s")
  case (M_Fetch rest)
  with assms show ?thesis
    by (simp add: inv_out_def inv_pre_def outw_def wrs_def errs_def)
next
  case M_Output
  with assms show ?thesis
    by (simp add: inv_out_def inv_pre_def outw_def wrs_def errs_def)
next
  case M_Range
  with io have "inv_range E m s0 s" by (simp add: inv_out_def)
  with assms(2-5) have "inv_range E m s0 s'" by (rule inv_range_cong)
  with M_Range assms(1) show ?thesis by (simp add: inv_out_def)
next
  case (M_Return res)
  from assms(3) have "successN s' = successN s" by (simp add: wrs_def)
  with M_Return assms(1,2,4,5) io show ?thesis
    by (simp add: inv_out_def)
qed

lemma inv_out_init: "inv_out E m s0 (Run_init m s0)"
  by (simp add: inv_out_def inv_pre_def Run_init_def outw_def gzs_def)

lemma inv_out_closer: "inv_out E m s0 s \<Longrightarrow> inv_out E m s0 (closer_step s)"
  by (rule inv_out_cong [where s = s])
     (simp_all add: closer_step_def outw_def wrs_def errs_def gzs_def split: closer_pc.splits)

lemma inv_out_task: "inv_out E m s0 s \<Longrightarrow> inv_out E m s0 (task_step E m i s)"
proof (rule inv_out_cong [where s = s])
  obtain a r where fp: "fetchProfile E m (t_name (tasks s ! i)) s = (a, r)"
    by (cases "fetchProfile E m (t_name (tasks s ! i)) s")
  with fetchProfile_frame [of E m "t_name (tasks s ! i)" s]
  have f: "ctl a = ctl s" "outw a = outw s" "wrs a = wrs s" "errs a = errs s" "gzs a = gzs s"
    by simp_all
  then have mp: "main_pc a = main_pc s" by (simp add: ctl_def)
  show "main_pc (task_step E m i s) = main_pc s"
    using fp mp by (simp add: task_step_def split: task_pc.splits option.splits)
  show "outw (task_step E m i s) = outw s"
    using fp f(2) by (simp add: task_step_def split: task_pc.splits option.splits)
      (simp add: outw_def)
  show "wrs (task_step E m i s) = wrs s"
    using fp f(3) by (simp add: task_step_def split: task_pc.splits option.splits)
      (simp add: wrs_def)
  show "errs (task_step E m i s) = errs s"
    using fp f(4) by (simp add: task_step_def split: task_pc.splits option.splits)
      (simp add: errs_def)
  show "gzs (task_step E m i s) = gzs s"
    using fp f(5) by (simp add: task_step_def split: task_pc.splits option.splits)
      (simp add: gzs_def)
qed

lemma wrote_refl: "wrote E s s"
  by (simp add: wrote_def)

lemma wrote_trans: "wrote E a b \<Longrightarrow> wrote E b c \<Longrightarrow> wrote E a c"
  by (auto simp: wrote_def)

lemma wrote_cong:
  assumes "outw b = outw a" "errs b = errs a" "gzs b = gzs a" "sink b = sink a"
  shows "wrote E a b"
proof -
  from assms have f: "stdout b = stdout a" "files b = files a" "tw_err b = tw_err a"
    "gw_err b = gw_err a"
    by (simp_all add: outw_def errs_def)
  have "gz_ok base a \<longrightarrow> gz_ok base b" for base
    using gz_ok_fields [OF assms(4) f(1,2) assms(3)] by blast
  with assms f show ?thesis
    by (simp add: wrote_def tw_err_ok_def)
qed

lemma gz_ok_err_update:
  "gz_ok base (s\<lparr>tw_err := a, gw_err := b\<rparr>) = gz_ok base s"
  by (simp add: gz_ok_def written_def sink_open_def split: writer.splits)

text \<open>A write of the tar writer that fails, and one that succeeds.\<close>

lemma wrote_fail:
  assumes "write_error E (External t)" and that: "tw_err s = None"
  shows "wrote E s ((gz_pass E s)\<lparr>tw_err := Some (External t), gw_err := Some (External t)\<rparr>)"
proof -
  let ?s' = "(gz_pass E s)\<lparr>tw_err := Some (External t), gw_err := Some (External t)\<rparr>"
  have "gz_ok base s \<longrightarrow> gz_ok base ?s'" for base
    by (simp add: gz_ok_err_update gz_pass_ok)
  moreover have "tw_err_ok E ?s'" using assms by (simp add: tw_err_ok_def)
  moreover have "sink ?s' = sink s" using gz_pass_frame [of E s] by (simp add: wrs_def)
  moreover have "sink s = W_Stdout \<longrightarrow> files ?s' = files s"
    "sink s \<noteq> W_Stdout \<longrightarrow> stdout ?s' = stdout s"
    using gz_pass_out [of s E] by simp_all
  ultimately show ?thesis using that by (simp add: wrote_def)
qed

lemma wrote_gz_Write:
  assumes "tw_err s = None" shows "wrote E s (gz_Write E c s)"
proof -
  let ?s' = "gz_Write E c s"
  from gz_Write_frame [of E c s] have f: "sink ?s' = sink s" "tw_err ?s' = tw_err s"
    "gw_err ?s' = gw_err s"
    by (simp_all add: wrs_def errs_def)
  have "gz_ok base s \<longrightarrow> gz_ok base ?s'" for base
    by (simp add: gz_Write_ok)
  moreover have "sink s = W_Stdout \<longrightarrow> files ?s' = files s"
    "sink s \<noteq> W_Stdout \<longrightarrow> stdout ?s' = stdout s"
    using gz_Write_out [of s E c] by simp_all
  ultimately show ?thesis using f assms by (simp add: wrote_def tw_err_ok_def)
qed

lemma WriteHeader_wrote:
  assumes "WriteHeader E h s = (s', res)"
  shows "wrote E s s' \<and> (res \<noteq> None \<longrightarrow> tw_err s' \<noteq> None) \<and> (res = None \<longrightarrow> tw_err s' = None)"
proof (cases "tw_err s")
  case (Some e)
  with assms have "s' = s" "res = Some e" by (simp_all add: WriteHeader_def)
  with Some show ?thesis by (simp add: wrote_refl)
next
  case None
  show ?thesis
  proof (cases "e_WriteHeader E h")
    case (Some t)
    then have "write_error E (External t)" by (auto simp: write_error_def)
    from wrote_fail [OF this None] assms None Some show ?thesis
      by (auto simp: WriteHeader_def)
  next
    case eN: None
    with assms None have s': "s' = gz_Write E (TarHeader h) s" "res = None"
      by (simp_all add: WriteHeader_def)
    from gz_Write_frame [of E "TarHeader h" s] None have "tw_err s' = None"
      unfolding s' by (simp add: errs_def)
    with s' wrote_gz_Write [OF None, of E "TarHeader h"] show ?thesis by simp
  qed
qed

lemma Write_wrote:
  assumes "Write E b s = (s', res)"
  shows "wrote E s s' \<and> (res \<noteq> None \<longrightarrow> tw_err s' \<noteq> None) \<and> (res = None \<longrightarrow> tw_err s' = None)"
proof (cases "tw_err s")
  case (Some e)
  with assms have "s' = s" "res = Some e" by (simp_all add: Write_def)
  with Some show ?thesis by (simp add: wrote_refl)
next
  case None
  show ?thesis
  proof (cases "e_Write E b")
    case (Some t)
    then have "write_error E (External t)" by (auto simp: write_error_def)
    from wrote_fail [OF this None] assms None Some show ?thesis
      by (auto simp: Write_def)
  next
    case eN: None
    with assms None have s': "s' = gz_Write E (TarData b) s" "res = None"
      by (simp_all add: Write_def)
    from gz_Write_frame [of E "TarData b" s] None have "tw_err s' = None"
      unfolding s' by (simp add: errs_def)
    with s' wrote_gz_Write [OF None, of E "TarData b"] show ?thesis by simp
  qed
qed

lemma writeTarFile_wrote:
  assumes "writeTarFile E m nm r s = (s', res)"
  shows "wrote E s s'
         \<and> (res \<noteq> None \<longrightarrow>
               tw_err s' \<noteq> None \<or> outw s' = outw s \<and> gzs s' = gzs s \<and> tw_err s' = tw_err s)
         \<and> (res = None \<longrightarrow> tw_err s' = None)"
proof -
  obtain a ra where ra: "ReadAll r s = (a, ra)" by (cases "ReadAll r s")
  from ReadAll_frame [of r s] ra
  have fa: "outw a = outw s" "errs a = errs s" "wrs a = wrs s" "gzs a = gzs s" by simp_all
  then have sa: "sink a = sink s" "tw_err a = tw_err s" by (simp_all add: wrs_def errs_def)
  from fa sa have wa: "wrote E s a" by (simp add: wrote_cong)
  show ?thesis
  proof (cases ra)
    case (Inl e)
    with assms ra have "s' = a" "res = Some e" by (simp_all add: writeTarFile_def)
    with wa fa sa show ?thesis by simp
  next
    case (Inr buf)
    let ?h = "\<lparr>Name = filename_of nm, Mode = 384, Size = int (length buf)\<rparr>"
    obtain b rb where wh: "WriteHeader E ?h a = (b, rb)" by (cases "WriteHeader E ?h a")
    note hb = WriteHeader_wrote [OF wh]
    show ?thesis
    proof (cases rb)
      case (Some e)
      with assms ra Inr wh have "s' = b" "res = Some e" by (simp_all add: writeTarFile_def)
      with wa hb Some show ?thesis by (auto intro: wrote_trans)
    next
      case None
      obtain c rc where wd: "Write E buf b = (c, rc)" by (cases "Write E buf b")
      note hc = Write_wrote [OF wd]
      from wa hb hc have wc: "wrote E s c" by (blast intro: wrote_trans)
      show ?thesis
      proof (cases rc)
        case (Some e)
        with assms ra Inr wh None wd have "s' = c" "res = Some e"
          by (simp_all add: writeTarFile_def)
        with wc hc Some show ?thesis by simp
      next
        case rcN: None
        let ?l = "logf (''['' @ fst (ParseProfileName nm) @ ''] OK'') c"
        from assms ra Inr wh None wd rcN have s': "s' = (if Verbose m then ?l else c)" "res = None"
          by (auto simp: writeTarFile_def split: if_splits)
        have "wrote E c ?l" "tw_err ?l = tw_err c"
          using logf_frame [of "''['' @ fst (ParseProfileName nm) @ ''] OK''" c]
          by (simp_all add: wrote_cong wrs_def errs_def)
        with wc hc rcN s' show ?thesis by (auto intro: wrote_trans)
      qed
    qed
  qed
qed
lemma inv_out_recv:
  assumes "inv_out E m s0 s" shows "inv_out E m s0 (recv_step E m i s)"
proof (cases "main_pc s = M_Range \<and> i < length (tasks s)")
  case False
  with assms show ?thesis by (auto simp: recv_step_def)
next
  case True
  then have mr: "main_pc s = M_Range" by simp
  with assms have ir: "inv_range E m s0 s" by (simp add: inv_out_def)
  show ?thesis
  proof (cases "t_pc (tasks s ! i)")
    case (T_Send x)
    let ?s1 = "s\<lparr>tasks := (tasks s)[i := (tasks s ! i)\<lparr>t_pc := T_Exit\<rparr>]\<rparr>"
    let ?base = "if OutputPath m = [] then stdout s0 else []"
    obtain a r where wt: "writeTarFile E m (name x) (ReadCloser x) ?s1 = (a, r)"
      by (cases "writeTarFile E m (name x) (ReadCloser x) ?s1")
    note w = writeTarFile_wrote [OF wt]
    from writeTarFile_frame [of E m "name x" "ReadCloser x" ?s1] wt
    have fa: "ctl a = ctl ?s1" "wrs a = wrs ?s1" by simp_all
    let ?t = "case r of Some err \<Rightarrow> logf (''['' @ name x @ ''] archive failed: '' @ Error err) a
                | None \<Rightarrow> a\<lparr>successN := successN a + 1\<rparr>"
    have st: "recv_step E m i s = ?t"
      using True T_Send wt by (simp add: recv_step_def Let_def split: option.splits)
    have mp: "main_pc ?t = M_Range"
      using fa(1) mr by (simp add: ctl_def logf_def split: option.splits)
    have "wrote E s ?s1" by (rule wrote_cong) (simp_all add: outw_def errs_def gzs_def)
    with w have ws: "wrote E s a" by (blast intro: wrote_trans)
    from fa(2) have fs: "sink a = sink s" "tw_closed a = tw_closed s" "gw_closed a = gw_closed s"
      "successN a = successN s"
      by (simp_all add: wrs_def)
    from ir have r1: "sink s = (if OutputPath m = [] then W_Stdout else W_File (OutputPath m))"
      and r2: "\<not> tw_closed s" "\<not> gw_closed s" and r3: "gw_err s = tw_err s"
      and r4: "tw_err_ok E s"
      and r5: "OutputPath m = [] \<Longrightarrow> files s = files s0"
      and r6: "tw_err s = None \<Longrightarrow> successN s = 0 \<Longrightarrow> \<not> gw_wroteHeader s"
      and r7: "OutputPath m \<noteq> [] \<Longrightarrow> stdout s = stdout s0 \<and> e_Create E (OutputPath m) = None"
      and r8: "gz_ok ?base s"
      by (auto simp: inv_range_def)
    from ws r3 have a3: "gw_err a = tw_err a" by (simp add: wrote_def)
    from ws r4 have a4: "tw_err_ok E a" by (simp add: wrote_def)
    from ws r8 have a8: "gz_ok ?base a" by (simp add: wrote_def)
    have a5: "files a = files s0" if "OutputPath m = []"
      using ws r1 r5 that by (simp add: wrote_def)
    have a7: "stdout a = stdout s0 \<and> e_Create E (OutputPath m) = None" if "OutputPath m \<noteq> []"
      using ws r1 r7 that by (simp add: wrote_def)
    have a6: "\<not> gw_wroteHeader a"
      if "tw_err a = None" "successN s = 0" "r \<noteq> None"
    proof -
      from ws that(1) have t0: "tw_err s = None" by (auto simp: wrote_def)
      from w that(1,3) have "gzs a = gzs ?s1" by auto
      then have "gw_wroteHeader a = gw_wroteHeader s" by (simp add: gzs_def)
      with r6 [OF t0 that(2)] show ?thesis by simp
    qed
    have "inv_range E m s0 ?t"
    proof (cases r)
      case None
      let ?u = "a\<lparr>successN := successN a + 1\<rparr>"
      have "sink ?u = (if OutputPath m = [] then W_Stdout else W_File (OutputPath m))"
        using fs r1 by simp
      moreover have "OutputPath m = [] \<longrightarrow> files ?u = files s0"
        using a5 by simp
      moreover have "OutputPath m \<noteq> [] \<longrightarrow> stdout ?u = stdout s0
            \<and> e_Create E (OutputPath m) = None"
        using a7 by simp
      moreover have "gz_ok ?base ?u"
        using a8 by (rule gz_ok_fields [rotated 4]) (simp_all add: gzs_def)
      moreover have "tw_err_ok E ?u" using a4 by (simp add: tw_err_ok_def)
      ultimately show ?thesis
        unfolding None inv_range_def using fs r2 a3 by simp
    next
      case (Some e)
      let ?u = "logf (''['' @ name x @ ''] archive failed: '' @ Error e) a"
      have "sink ?u = (if OutputPath m = [] then W_Stdout else W_File (OutputPath m))"
        using fs r1 by (simp add: logf_def)
      moreover have "OutputPath m = [] \<longrightarrow> files ?u = files s0"
        using a5 by (simp add: logf_def)
      moreover have "OutputPath m \<noteq> [] \<longrightarrow> stdout ?u = stdout s0 \<and> e_Create E (OutputPath m) = None"
        using a7 by (simp add: logf_def)
      moreover have "tw_err ?u = None \<and> successN ?u = 0 \<longrightarrow> \<not> gw_wroteHeader ?u"
        using a6 fs Some by (simp add: logf_def)
      moreover have "\<not> tw_closed ?u" "\<not> gw_closed ?u" "gw_err ?u = tw_err ?u"
        using fs r2 a3 by (auto simp: logf_def)
      moreover have "gz_ok ?base ?u"
        using a8 by (rule gz_ok_fields [rotated 4]) (simp_all add: gzs_def logf_def)
      moreover have "tw_err_ok E ?u" using a4 by (simp add: tw_err_ok_def logf_def)
      ultimately show ?thesis
        unfolding Some inv_range_def by simp
    qed
    with mp show ?thesis unfolding st by (simp add: inv_out_def)
  qed (use assms True in \<open>simp_all add: recv_step_def\<close>)
qed

lemma inv_out_main:
  assumes "inv_out E m s0 s" shows "inv_out E m s0 (main_step E m s)"
proof (cases "main_pc s")
  case (M_Fetch rest)
  with assms have "inv_pre s0 s" by (simp add: inv_out_def)
  with M_Fetch show ?thesis
    by (cases rest)
       (simp_all add: main_step_def inv_out_def inv_pre_def Let_def logf_def outw_def gzs_def)
next
  case M_Output
  with assms have pre: "inv_pre s0 s" by (simp add: inv_out_def)
  show ?thesis
  proof (cases "OutputPath m = []")
    case True
    with M_Output pre show ?thesis
      by (simp add: main_step_def Run_output_def inv_out_def inv_range_def inv_pre_def outw_def
          gzs_def gz_ok_def tw_err_ok_def written_def sink_open_def)
  next
    case False
    show ?thesis
    proof (cases "e_Create E (OutputPath m)")
      case None
      with False M_Output pre show ?thesis
        by (simp add: main_step_def Run_output_def inv_out_def inv_range_def inv_pre_def outw_def
          gzs_def gz_ok_def tw_err_ok_def written_def sink_open_def)
    next
      case (Some t)
      with False M_Output pre show ?thesis
        by (simp add: main_step_def Run_output_def inv_out_def inv_pre_def outw_def)
    qed
  qed
next
  case M_Range
  with assms have ir: "inv_range E m s0 s" by (simp add: inv_out_def)
  show ?thesis
  proof (cases "chan_closed s")
    case False
    with M_Range assms show ?thesis by (simp add: main_step_def)
  next
    case True
    obtain a r where rf: "Run_finish E m s = (a, r)" by (cases "Run_finish E m s")
    from Run_finish_frame [of E m s] rf have "successN a = successN s" by simp
    with M_Range True rf ir show ?thesis
      by (auto simp: main_step_def inv_out_def outw_def errs_def gzs_def)
  qed
next
  case (M_Return res)
  with assms show ?thesis by (simp add: main_step_def)
qed

lemma inv_out_step: "inv_out E m s0 s \<Longrightarrow> inv_out E m s0 (step E m s mv)"
  by (cases mv) (simp_all add: inv_out_main inv_out_task inv_out_recv inv_out_closer)

lemma inv_out_foldl: "inv_out E m s0 s \<Longrightarrow> inv_out E m s0 (foldl (step E m) s sched)"
  by (induction sched arbitrary: s) (simp_all add: inv_out_step)

lemma inv_out_Run: "inv_out E m s0 (Run E m sched s0)"
  unfolding Run_def by (rule inv_out_foldl) (rule inv_out_init)

subsection \<open>The last part of \<open>Run\<close>\<close>







subsection \<open>\<open>Run\<close> returns\<close>

lemma Run_append: "Run E m (a @ b) s0 = foldl (step E m) (Run E m a s0) b"
  by (simp add: Run_def)









lemma spawn:
  "main_pc s = M_Fetch rest \<Longrightarrow>
     main_pc (foldl (step E m) s (replicate (length rest) G_main)) = M_Fetch []
     \<and> map t_pc (tasks (foldl (step E m) s (replicate (length rest) G_main)))
         = map t_pc (tasks s) @ replicate (length rest) T_Start
     \<and> closer_pc (foldl (step E m) s (replicate (length rest) G_main)) = closer_pc s
     \<and> chan_closed (foldl (step E m) s (replicate (length rest) G_main)) = chan_closed s"
proof (induction rest arbitrary: s)
  case Nil
  then show ?case by simp
next
  case (Cons nm rest)
  let ?a = "main_step E m s"
  from Cons.prems have a: "main_pc ?a = M_Fetch rest"
    "map t_pc (tasks ?a) = map t_pc (tasks s) @ [T_Start]"
    "closer_pc ?a = closer_pc s" "chan_closed ?a = chan_closed s"
    by (simp_all add: main_step_def Let_def logf_def)
  from Cons.IH [OF a(1)] a show ?case
    by (simp add: replicate_app_Cons_same)
qed





subsection \<open>The channel is closed behind the last goroutine\<close>

lemma task_step_emits:
  assumes "i < length (tasks s)" and "t_pc (tasks s ! i) = T_Start"
  shows "t_pc (tasks (step E m s (G_task i)) ! i)
           = (case snd (fetchProfile E m (t_name (tasks s ! i)) s) of
                Some r \<Rightarrow> T_Send r | None \<Rightarrow> T_Exit)"
proof -
  obtain a r where fp: "fetchProfile E m (t_name (tasks s ! i)) s = (a, r)"
    by (cases "fetchProfile E m (t_name (tasks s ! i)) s")
  with fetchProfile_frame [of E m "t_name (tasks s ! i)" s] have "tasks a = tasks s"
    by (simp add: ctl_def)
  with assms fp show ?thesis
    by (simp add: task_step_def split: option.splits)
qed

lemma recv_step_closed:
  assumes "inv_ctl m s" and "chan_closed s"
  shows "recv_step E m i s = s"
proof (cases "i < length (tasks s)")
  case True
  from assms have "wg s = 0" by (auto dest: inv_ctlD(4,5))
  with inv_ctlD(1) [OF assms(1)] have "pending (tasks s) = 0" by simp
  with True have "t_pc (tasks s ! i) = T_Done" by (simp add: pending_zero)
  then show ?thesis by (simp add: recv_step_def)
qed (simp add: recv_step_def)

text \<open>
  C5. In every state \<open>s\<close> that a run reaches, under every schedule: the fetch goroutines
  started so far are those of the first requested names, one for each, in order, and all
  of them once the closing goroutine is started; a goroutine that has been started goes,
  in its one step, from its start to the send of its result when the fetch succeeded, and
  to its end otherwise; a value waiting to be sent carries the name of its goroutine; and
  when the channel is closed, every requested name has its goroutine, every one of them
  has ended, and \<open>Run\<close> receives nothing more.
\<close>

theorem fetchProfiles_channel:
  "s = Run E m sched ini \<longrightarrow>
     (\<exists>rest. map t_name (tasks s) @ rest = ProfileNames m)
     \<and> (closer_pc s \<noteq> C_None \<longrightarrow> map t_name (tasks s) = ProfileNames m)
     \<and> (\<forall>i. i < length (tasks s) \<and> t_pc (tasks s ! i) = T_Start \<longrightarrow>
           t_pc (tasks (step E m s (G_task i)) ! i)
             = (case snd (fetchProfile E m (t_name (tasks s ! i)) s) of
                  Some r \<Rightarrow> T_Send r | None \<Rightarrow> T_Exit))
     \<and> (\<forall>i r. i < length (tasks s) \<and> t_pc (tasks s ! i) = T_Send r \<longrightarrow>
           name r = t_name (tasks s ! i))
     \<and> (chan_closed s \<longrightarrow>
           map t_name (tasks s) = ProfileNames m
           \<and> (\<forall>t \<in> set (tasks s). t_pc t = T_Done)
           \<and> (\<forall>i. step E m s (G_recv i) = s))"
proof
  assume s: "s = Run E m sched ini"
  then have inv: "inv_ctl m s" by (simp add: inv_ctl_Run)
  have a: "\<exists>rest. map t_name (tasks s) @ rest = ProfileNames m"
    using inv_ctl_names [OF inv] by (cases "main_pc s") auto
  have b: "map t_name (tasks s) = ProfileNames m" if "closer_pc s \<noteq> C_None"
    using inv_ctl_names [OF inv] that by (cases "main_pc s") auto
  have c: "\<forall>i. i < length (tasks s) \<and> t_pc (tasks s ! i) = T_Start \<longrightarrow>
           t_pc (tasks (step E m s (G_task i)) ! i)
             = (case snd (fetchProfile E m (t_name (tasks s ! i)) s) of
                  Some r \<Rightarrow> T_Send r | None \<Rightarrow> T_Exit)"
    using task_step_emits by blast
  have d: "\<forall>i r. i < length (tasks s) \<and> t_pc (tasks s ! i) = T_Send r \<longrightarrow>
           name r = t_name (tasks s ! i)"
    using inv_ctlD(6) [OF inv] by blast
  have e: "map t_name (tasks s) = ProfileNames m \<and> (\<forall>t \<in> set (tasks s). t_pc t = T_Done)
           \<and> (\<forall>i. step E m s (G_recv i) = s)" if cl: "chan_closed s"
  proof -
    from inv_ctlD(5) [OF inv cl] have cd: "closer_pc s = C_Done" .
    with b have n: "map t_name (tasks s) = ProfileNames m" by simp
    from inv_ctlD(4) [OF inv] cd have "wg s = 0" by simp
    with inv_ctlD(1) [OF inv] have "pending (tasks s) = 0" by simp
    then have "\<forall>t \<in> set (tasks s). t_pc t = T_Done" by (simp add: pending_zero)
    moreover have "\<forall>i. step E m s (G_recv i) = s"
      using recv_step_closed [OF inv cl] by simp
    ultimately show ?thesis using n by blast
  qed
  from a b c d e show "(\<exists>rest. map t_name (tasks s) @ rest = ProfileNames m)
     \<and> (closer_pc s \<noteq> C_None \<longrightarrow> map t_name (tasks s) = ProfileNames m)
     \<and> (\<forall>i. i < length (tasks s) \<and> t_pc (tasks s ! i) = T_Start \<longrightarrow>
           t_pc (tasks (step E m s (G_task i)) ! i)
             = (case snd (fetchProfile E m (t_name (tasks s ! i)) s) of
                  Some r \<Rightarrow> T_Send r | None \<Rightarrow> T_Exit))
     \<and> (\<forall>i r. i < length (tasks s) \<and> t_pc (tasks s ! i) = T_Send r \<longrightarrow>
           name r = t_name (tasks s ! i))
     \<and> (chan_closed s \<longrightarrow>
           map t_name (tasks s) = ProfileNames m
           \<and> (\<forall>t \<in> set (tasks s). t_pc t = T_Done)
           \<and> (\<forall>i. step E m s (G_recv i) = s))"
    by blast
qed

theorem fetchProfiles_channel_witness:
  "chan_closed (Run env1 (main1 [''heap'', ''block''] [])
      [G_main, G_main, G_main, G_main, G_task 1, G_task 0, G_task 1, G_recv 0, G_task 0,
       G_closer, G_closer] world0)
   \<and> map t_name (tasks (Run env1 (main1 [''heap'', ''block''] [])
      [G_main, G_main, G_main, G_main, G_task 1, G_task 0, G_task 1, G_recv 0, G_task 0,
       G_closer, G_closer] world0)) = [''heap'', ''block'']
   \<and> map t_pc (tasks (Run env1 (main1 [''heap'', ''block''] [])
      [G_main, G_main, G_main, G_main, G_task 1, G_task 0, G_task 1, G_recv 0, G_task 0,
       G_closer, G_closer] world0)) = [T_Done, T_Done]
   \<and> map t_pc (tasks (Run env1 (main1 [''heap'', ''block''] [])
      [G_main, G_main, G_main, G_main, G_task 1, G_task 0] world0))
       = [T_Send \<lparr>ReadCloser = 1, name = ''heap''\<rparr>, T_Exit]
   \<and> \<not> chan_closed (Run env1 (main1 [''heap'', ''block''] [])
      [G_main, G_main, G_main, G_main, G_task 1, G_task 0, G_closer, G_closer] world0)"
proof -
  have c: "chan_closed (Run env1 (main1 [''heap'', ''block''] [])
      [G_main, G_main, G_main, G_main, G_task 1, G_task 0, G_task 1, G_recv 0, G_task 0,
       G_closer, G_closer] world0)"
    by (simp add: eval_defs)
  have p: "map t_pc (tasks (Run env1 (main1 [''heap'', ''block''] [])
      [G_main, G_main, G_main, G_main, G_task 1, G_task 0] world0))
       = [T_Send \<lparr>ReadCloser = 1, name = ''heap''\<rparr>, T_Exit]"
    by (simp add: eval_defs)
  have q: "\<not> chan_closed (Run env1 (main1 [''heap'', ''block''] [])
      [G_main, G_main, G_main, G_main, G_task 1, G_task 0, G_closer, G_closer] world0)"
    by (simp add: eval_defs)
  have n: "ProfileNames (main1 [''heap'', ''block''] []) = [''heap'', ''block'']"
    by (simp add: main1_def)
  have d: "map t_pc (tasks (Run env1 (main1 [''heap'', ''block''] [])
      [G_main, G_main, G_main, G_main, G_task 1, G_task 0, G_task 1, G_recv 0, G_task 0,
       G_closer, G_closer] world0)) = [T_Done, T_Done]"
    by (simp add: eval_defs)
  from c fetchProfiles_channel [where E = env1 and m = "main1 [''heap'', ''block''] []"
      and ini = world0 and sched = "[G_main, G_main, G_main, G_main, G_task 1, G_task 0, G_task 1,
        G_recv 0, G_task 0, G_closer, G_closer]"]
  have "map t_name (tasks (Run env1 (main1 [''heap'', ''block''] [])
      [G_main, G_main, G_main, G_main, G_task 1, G_task 0, G_task 1, G_recv 0, G_task 0,
       G_closer, G_closer] world0)) = ProfileNames (main1 [''heap'', ''block''] [])"
    by blast
  with n d have "map t_name (tasks (Run env1 (main1 [''heap'', ''block''] [])
      [G_main, G_main, G_main, G_main, G_task 1, G_task 0, G_task 1, G_recv 0, G_task 0,
       G_closer, G_closer] world0)) = [''heap'', ''block'']
    \<and> map t_pc (tasks (Run env1 (main1 [''heap'', ''block''] [])
      [G_main, G_main, G_main, G_main, G_task 1, G_task 0, G_task 1, G_recv 0, G_task 0,
       G_closer, G_closer] world0)) = [T_Done, T_Done]"
    by simp
  with c p q show ?thesis by blast
qed

subsection \<open>The result of \<open>Run\<close>\<close>








subsection \<open>When the output file cannot be created\<close>

lemma main_step_requests: "requests (main_step E m s) = requests s"
proof (cases "main_pc s")
  case (M_Fetch rest)
  then show ?thesis
    by (cases rest) (simp_all add: main_step_def Let_def logf_def)
next
  case M_Output
  obtain a r where ro: "Run_output E m s = (a, r)" by (cases "Run_output E m s")
  with Run_output_frame [of E m s] have "requests a = requests s" by simp
  with M_Output ro show ?thesis by (simp add: main_step_def split: option.splits)
next
  case M_Range
  obtain a r where rf: "Run_finish E m s = (a, r)" by (cases "Run_finish E m s")
  with Run_finish_frame [of E m s] have "requests a = requests s" by simp
  with M_Range rf show ?thesis by (simp add: main_step_def)
next
  case (M_Return res)
  then show ?thesis by (simp add: main_step_def)
qed

lemma main_only_requests:
  "requests (foldl (step E m) s (replicate k G_main)) = requests s"
  by (induction k arbitrary: s) (simp_all add: main_step_requests)

text \<open>When the file cannot be created, \<open>Run\<close> never gets into its loop.\<close>

lemma create_fails_out:
  assumes "OutputPath m \<noteq> []" and "e_Create E (OutputPath m) = Some t"
  shows "outw (Run E m sched ini) = outw ini
         \<and> (\<forall>res. main_pc (Run E m sched ini) = M_Return res \<longrightarrow> res = Some (External t))"
proof -
  let ?s = "Run E m sched ini"
  have io: "inv_out E m ini ?s" by (rule inv_out_Run)
  have nr: "\<not> inv_range E m ini p" for p
    using assms by (simp add: inv_range_def)
  show ?thesis
  proof (cases "main_pc ?s")
    case (M_Fetch rest)
    with io show ?thesis by (simp add: inv_out_def inv_pre_def)
  next
    case M_Output
    with io show ?thesis by (simp add: inv_out_def inv_pre_def)
  next
    case M_Range
    with io nr show ?thesis by (simp add: inv_out_def)
  next
    case (M_Return res)
    with io nr assms show ?thesis by (auto simp: inv_out_def)
  qed
qed

text \<open>
  C3, as amended. When an output path is given and the file cannot be created: a run that
  has returned has returned that error, and by then the fetch goroutines of all requested
  profiles and the closing goroutine had been started (the file is created behind
  \<open>fetchProfiles\<close>), so requests may have been made; nothing is ever written to
  standard output or to a file; and \<open>Run\<close> does return, also when no other goroutine
  has moved, in which case no request has been made.
\<close>

theorem Run_create_failure:
  "OutputPath m \<noteq> [] \<and> e_Create E (OutputPath m) = Some t \<longrightarrow>
     (main_pc (Run E m sched ini) = M_Return res \<longrightarrow>
        res = Some (External t)
        \<and> map t_name (tasks (Run E m sched ini)) = ProfileNames m
        \<and> closer_pc (Run E m sched ini) \<noteq> C_None)
     \<and> stdout (Run E m sched ini) = stdout ini
     \<and> files (Run E m sched ini) = files ini
     \<and> main_pc (Run E m (replicate (length (ProfileNames m) + 2) G_main) ini)
         = M_Return (Some (External t))
     \<and> requests (Run E m (replicate (length (ProfileNames m) + 2) G_main) ini) = requests ini"
proof
  assume h: "OutputPath m \<noteq> [] \<and> e_Create E (OutputPath m) = Some t"
  then have p: "OutputPath m \<noteq> []" and c: "e_Create E (OutputPath m) = Some t" by simp_all
  let ?s = "Run E m sched ini"
  let ?n = "length (ProfileNames m)"
  note cf = create_fails_out [OF p c]
  have a: "res = Some (External t) \<and> map t_name (tasks ?s) = ProfileNames m
      \<and> closer_pc ?s \<noteq> C_None" if ret: "main_pc ?s = M_Return res"
  proof -
    from cf [of sched ini] ret have "res = Some (External t)" by blast
    moreover from inv_ctl_names [OF inv_ctl_Run [of m E sched ini]] ret
    have "map t_name (tasks ?s) = ProfileNames m \<and> closer_pc ?s \<noteq> C_None" by simp
    ultimately show ?thesis by simp
  qed
  have b: "stdout ?s = stdout ini \<and> files ?s = files ini"
    using cf [of sched ini] by (simp add: outw_def)
  have sched: "replicate (?n + 2) G_main = replicate ?n G_main @ [G_main, G_main]"
  proof -
    have "replicate (?n + 2) G_main = replicate ?n G_main @ replicate 2 G_main"
      by (rule replicate_add)
    also have "replicate 2 G_main = [G_main, G_main]"
      by (simp add: numeral_2_eq_2)
    finally show ?thesis .
  qed
  let ?a = "Run E m (replicate ?n G_main) ini"
  have "main_pc (Run_init m ini) = M_Fetch (ProfileNames m)" by (simp add: Run_init_def)
  from spawn [OF this, of E m] have "main_pc ?a = M_Fetch []" by (simp add: Run_def)
  then have "main_pc (main_step E m (main_step E m ?a)) = M_Return (Some (External t))"
    using p c by (simp add: main_step_def Run_output_def)
  then have d: "main_pc (Run E m (replicate (?n + 2) G_main) ini) = M_Return (Some (External t))"
    unfolding sched by (simp add: Run_append)
  have e: "requests (Run E m (replicate (?n + 2) G_main) ini) = requests ini"
    unfolding Run_def by (simp only: main_only_requests) (simp add: Run_init_def)
  from a b d e show "(main_pc ?s = M_Return res \<longrightarrow>
        res = Some (External t) \<and> map t_name (tasks ?s) = ProfileNames m
        \<and> closer_pc ?s \<noteq> C_None)
     \<and> stdout ?s = stdout ini \<and> files ?s = files ini
     \<and> main_pc (Run E m (replicate (?n + 2) G_main) ini) = M_Return (Some (External t))
     \<and> requests (Run E m (replicate (?n + 2) G_main) ini) = requests ini"
    by blast
qed

theorem Run_create_failure_witness:
  "main_pc (Run env1 (main1 [''heap''] ''/nodir/out'') [G_main, G_task 0, G_main, G_main] world0)
     = M_Return (Some (External ''no such directory''))
   \<and> map t_name (tasks (Run env1 (main1 [''heap''] ''/nodir/out'')
        [G_main, G_task 0, G_main, G_main] world0)) = [''heap'']
   \<and> files (Run env1 (main1 [''heap''] ''/nodir/out'') [G_main, G_task 0, G_main, G_main] world0)
     = Map.empty
   \<and> stdout (Run env1 (main1 [''heap''] ''/nodir/out'') [G_main, G_task 0, G_main, G_main] world0)
     = []"
proof -
  have h: "OutputPath (main1 [''heap''] ''/nodir/out'') \<noteq> []
      \<and> e_Create env1 (OutputPath (main1 [''heap''] ''/nodir/out'')) = Some ''no such directory''"
    by (simp add: main1_def env1_def)
  have r: "main_pc (Run env1 (main1 [''heap''] ''/nodir/out'')
      [G_main, G_task 0, G_main, G_main] world0) = M_Return (Some (External ''no such directory''))"
    by (simp add: eval_defs)
  from h r Run_create_failure [where E = env1 and m = "main1 [''heap''] ''/nodir/out''"
      and t = "''no such directory''" and sched = "[G_main, G_task 0, G_main, G_main]"
      and ini = world0 and res = "Some (External ''no such directory'')"]
  have "map t_name (tasks (Run env1 (main1 [''heap''] ''/nodir/out'')
        [G_main, G_task 0, G_main, G_main] world0)) = ProfileNames (main1 [''heap''] ''/nodir/out'')
    \<and> stdout (Run env1 (main1 [''heap''] ''/nodir/out'') [G_main, G_task 0, G_main, G_main] world0)
        = stdout world0
    \<and> files (Run env1 (main1 [''heap''] ''/nodir/out'') [G_main, G_task 0, G_main, G_main] world0)
        = files world0"
    by blast
  with r show ?thesis by (simp add: main1_def world0_def)
qed

text \<open>
  C3, as stated, fails: with the output path \<^verbatim>\<open>/nodir/out\<close>, which cannot be
  created, the goroutine of \<^verbatim>\<open>heap\<close> has made its request while \<open>Run\<close> has not
  yet tried to create the file; then \<open>Run\<close> returns the error.
\<close>

theorem Run_requests_before_output:
  "requests (Run env1 (main1 [''heap''] ''/nodir/out'') [G_main, G_main, G_task 0] world0)
     = [\<lparr>Scheme = [], Host = [], Path = ''/debug/pprof/heap'', RawQuery = []\<rparr>]
   \<and> main_pc (Run env1 (main1 [''heap''] ''/nodir/out'') [G_main, G_main, G_task 0] world0)
     = M_Output
   \<and> sink (Run env1 (main1 [''heap''] ''/nodir/out'') [G_main, G_main, G_task 0] world0) = W_none
   \<and> main_pc (Run env1 (main1 [''heap''] ''/nodir/out'') [G_main, G_main, G_task 0, G_main] world0)
     = M_Return (Some (External ''no such directory''))"
  by (simp add: eval_defs)

subsection \<open>The exit code\<close>

lemma parseOne_ErrHelp:
  "parseOne E fs args = Fail fs' args' ErrHelp \<Longrightarrow>
     args \<noteq> [] \<and> (flag_name (hd args) = ''help'' \<or> flag_name (hd args) = ''h'')"
  by (auto simp: parseOne_def Let_def
      split: list.splits if_splits option.splits flag_kind.splits)

lemma parseOne_Seen_suffix:
  "parseOne E fs args = Seen fs' args' \<Longrightarrow> set args' \<subseteq> set args"
  by (auto simp: parseOne_def Let_def
      split: list.splits if_splits option.splits flag_kind.splits)

lemma Parse_ErrHelp:
  "Parse E fs args = (fs', rest, Some ErrHelp) \<Longrightarrow>
     \<exists>a \<in> set args. flag_name a = ''help'' \<or> flag_name a = ''h''"
proof (induction E fs args rule: Parse.induct)
  case (1 E fs args)
  show ?case
  proof (cases "parseOne E fs args")
    case (Seen fs1 args1)
    with 1 have "\<exists>a \<in> set args1. flag_name a = ''help'' \<or> flag_name a = ''h''"
      by (simp add: Parse.simps [of E fs args])
    with parseOne_Seen_suffix [OF Seen] show ?thesis by blast
  next
    case (Stop args1)
    with 1(2) show ?thesis by (simp add: Parse.simps [of E fs args])
  next
    case (Fail fs1 args1 err)
    with 1(2) have "err = ErrHelp" by (simp add: Parse.simps [of E fs args])
    with Fail parseOne_ErrHelp [of E fs args fs1 args1] show ?thesis
      by (cases args) auto
  qed
qed


text \<open>
  C9, as amended. An error of the flag parser ends the process with code 2 and the usage
  text on the error stream when it is \<^verbatim>\<open>flag.ErrHelp\<close>, which needs an argument that
  names the flag \<^verbatim>\<open>help\<close> or \<^verbatim>\<open>h\<close>, and with code 1 and the error's text
  otherwise; no argument left for the URL, more than one, and a URL that cannot be parsed
  end it with code 1 and the texts \<^verbatim>\<open>URL required\<close>, \<^verbatim>\<open>too many arguments\<close>
  and \<^verbatim>\<open>invalid URL\<close>; with the arguments accepted, the code is 0 when \<open>Run\<close>
  returns \<^verbatim>\<open>nil\<close> and 1, with the error's text, when it returns an error; and when
  \<open>ParseFlags\<close> fails no request is made.
\<close>

theorem main_exit_codes:
  "(Parse E flags0 args = (fs, rest, Some err) \<longrightarrow>
      main E args sched ini
        = (Some (if err = ErrHelp then 2 else 1),
           logf (if err = ErrHelp then Usage else Error err) ini))
   \<and> (Parse E flags0 args = (fs, rest, Some ErrHelp) \<longrightarrow>
        (\<exists>a \<in> set args. flag_name a = ''help'' \<or> flag_name a = ''h''))
   \<and> (Parse E flags0 args = (fs, [], None) \<longrightarrow>
        main E args sched ini = (Some 1, logf ''URL required'' ini))
   \<and> (Parse E flags0 args = (fs, rest, None) \<and> 1 < length rest \<longrightarrow>
        main E args sched ini = (Some 1, logf ''too many arguments'' ini))
   \<and> (Parse E flags0 args = (fs, [a], None) \<and> e_url_Parse E a = Inl t \<longrightarrow>
        main E args sched ini = (Some 1, logf ''invalid URL'' ini))
   \<and> (Parse E flags0 args = (fs, [a], None) \<and> e_url_Parse E a = Inr u
        \<and> m = NewMain\<lparr>OutputPath := fs_o fs, Verbose := fs_v fs,
                       ProfileNames := Split (fs_profiles fs) CHR '','', URL := u\<rparr> \<longrightarrow>
        (main_pc (Run E m sched ini) = M_Return None \<longrightarrow>
           main E args sched ini = (Some 0, Run E m sched ini))
        \<and> (main_pc (Run E m sched ini) = M_Return (Some err) \<longrightarrow>
           main E args sched ini = (Some 1, logf (Error err) (Run E m sched ini))))
   \<and> (snd (ParseFlags E NewMain args) \<noteq> None \<longrightarrow>
        requests (snd (main E args sched ini)) = requests ini)"
proof -
  have a: "main E args sched ini
        = (Some (if err = ErrHelp then 2 else 1),
           logf (if err = ErrHelp then Usage else Error err) ini)"
    if "Parse E flags0 args = (fs, rest, Some err)"
    using that by (simp add: main_def ParseFlags_def)
  have b: "\<exists>a \<in> set args. flag_name a = ''help'' \<or> flag_name a = ''h''"
    if "Parse E flags0 args = (fs, rest, Some ErrHelp)"
    using that by (rule Parse_ErrHelp)
  have c: "main E args sched ini = (Some 1, logf ''URL required'' ini)"
    if "Parse E flags0 args = (fs, [], None)"
    using that by (simp add: main_def ParseFlags_def)
  have d: "main E args sched ini = (Some 1, logf ''too many arguments'' ini)"
    if "Parse E flags0 args = (fs, rest, None) \<and> 1 < length rest"
    using that by (auto simp: main_def ParseFlags_def Let_def)
  have e: "main E args sched ini = (Some 1, logf ''invalid URL'' ini)"
    if "Parse E flags0 args = (fs, [a], None) \<and> e_url_Parse E a = Inl t"
    using that by (simp add: main_def ParseFlags_def)
  have f: "(main_pc (Run E m sched ini) = M_Return None \<longrightarrow>
           main E args sched ini = (Some 0, Run E m sched ini))
        \<and> (main_pc (Run E m sched ini) = M_Return (Some err) \<longrightarrow>
           main E args sched ini = (Some 1, logf (Error err) (Run E m sched ini)))"
    if "Parse E flags0 args = (fs, [a], None) \<and> e_url_Parse E a = Inr u
        \<and> m = NewMain\<lparr>OutputPath := fs_o fs, Verbose := fs_v fs,
                       ProfileNames := Split (fs_profiles fs) CHR '','', URL := u\<rparr>"
    using that by (simp add: main_def ParseFlags_def Let_def)
  have g: "requests (snd (main E args sched ini)) = requests ini"
    if "snd (ParseFlags E NewMain args) \<noteq> None"
  proof -
    obtain m' r where pf: "ParseFlags E NewMain args = (m', r)"
      by (cases "ParseFlags E NewMain args")
    with that obtain x where "r = Some x" by auto
    with pf show ?thesis by (simp add: main_def logf_def)
  qed
  from a b c d e f g show ?thesis by blast
qed

theorem main_exit_codes_witness:
  "main env1 [''-help''] [] world0 = (Some 2, logf Usage world0)
   \<and> main env1 [''-v'', ''-x''] [] world0
       = (Some 1, logf ''flag provided but not defined: -x'' world0)
   \<and> main env1 [''-v'', ''host'', ''extra''] [] world0
       = (Some 1, logf ''too many arguments'' world0)
   \<and> fst (main env1 [''-profiles'', ''heap'', ''host''] (fair_schedule 1) world0) = Some 0
   \<and> fst (main env1 [''-profiles'', ''block'', ''host''] (fair_schedule 1) world0) = Some 1"
proof -
  have p1: "Parse env1 flags0 [''-help''] = (flags0, [], Some ErrHelp)"
    by (simp add: Parse.simps parseOne_def flag_name_def flag_body_def formal_def)
  have p2: "Parse env1 flags0 [''-v'', ''-x'']
      = (flags0\<lparr>fs_v := True\<rparr>, [],
         Some (FlagError ''flag provided but not defined: -x''))"
    by (simp add: Parse.simps parseOne_def flag_name_def flag_body_def formal_def)
  have p3: "Parse env1 flags0 [''-v'', ''host'', ''extra'']
      = (flags0\<lparr>fs_v := True\<rparr>, [''host'', ''extra''], None)
      \<and> 1 < length [''host'', ''extra'']"
    by (simp add: Parse.simps parseOne_def flag_name_def flag_body_def formal_def)
  have p4: "Parse env1 flags0 [''-profiles'', ''heap'', ''host'']
      = (flags0\<lparr>fs_profiles := ''heap''\<rparr>, [''host''], None)
      \<and> e_url_Parse env1 ''host''
          = Inr \<lparr>Scheme = ''http'', Host = ''host'', Path = [], RawQuery = []\<rparr>"
    by (simp add: Parse.simps parseOne_def flag_name_def flag_body_def formal_def set_flag_def
        env1_def)
  have p5: "Parse env1 flags0 [''-profiles'', ''block'', ''host'']
      = (flags0\<lparr>fs_profiles := ''block''\<rparr>, [''host''], None)
      \<and> e_url_Parse env1 ''host''
          = Inr \<lparr>Scheme = ''http'', Host = ''host'', Path = [], RawQuery = []\<rparr>"
    by (simp add: Parse.simps parseOne_def flag_name_def flag_body_def formal_def set_flag_def
        env1_def)
  have f: "fair_schedule 1 = [G_main, G_main, G_main, G_task 0, G_recv 0, G_task 0,
      G_closer, G_closer, G_main]"
    by (simp add: fair_schedule_def numeral_3_eq_3)
  let ?u = "\<lparr>Scheme = ''http'', Host = ''host'', Path = [], RawQuery = []\<rparr>"
  let ?m4 = "NewMain\<lparr>OutputPath := fs_o (flags0\<lparr>fs_profiles := ''heap''\<rparr>),
      Verbose := fs_v (flags0\<lparr>fs_profiles := ''heap''\<rparr>),
      ProfileNames := Split (fs_profiles (flags0\<lparr>fs_profiles := ''heap''\<rparr>)) CHR '','',
      URL := ?u\<rparr>"
  let ?m5 = "NewMain\<lparr>OutputPath := fs_o (flags0\<lparr>fs_profiles := ''block''\<rparr>),
      Verbose := fs_v (flags0\<lparr>fs_profiles := ''block''\<rparr>),
      ProfileNames := Split (fs_profiles (flags0\<lparr>fs_profiles := ''block''\<rparr>)) CHR '','',
      URL := ?u\<rparr>"
  have r4: "main_pc (Run env1 ?m4 (fair_schedule 1) world0) = M_Return None"
    unfolding f by (simp add: eval_defs flags0_def)
  have r5: "main_pc (Run env1 ?m5 (fair_schedule 1) world0)
      = M_Return (Some (ErrorNew ''no profiles written''))"
    unfolding f by (simp add: eval_defs flags0_def)
  from p1 main_exit_codes [where args = "[''-help'']" and fs = flags0 and rest = "[]"
      and err = ErrHelp and E = env1 and sched = "[]" and ini = world0]
  have a: "main env1 [''-help''] [] world0 = (Some 2, logf Usage world0)" by simp
  from p2 main_exit_codes [where args = "[''-v'', ''-x'']" and fs = "flags0\<lparr>fs_v := True\<rparr>"
      and rest = "[]" and err = "FlagError ''flag provided but not defined: -x''"
      and E = env1 and sched = "[]" and ini = world0]
  have b: "main env1 [''-v'', ''-x''] [] world0
       = (Some 1, logf ''flag provided but not defined: -x'' world0)" by simp
  from p3 main_exit_codes [where args = "[''-v'', ''host'', ''extra'']"
      and fs = "flags0\<lparr>fs_v := True\<rparr>" and rest = "[''host'', ''extra'']"
      and E = env1 and sched = "[]" and ini = world0]
  have c: "main env1 [''-v'', ''host'', ''extra''] [] world0
       = (Some 1, logf ''too many arguments'' world0)" by blast
  from p4 r4 main_exit_codes [where args = "[''-profiles'', ''heap'', ''host'']"
      and fs = "flags0\<lparr>fs_profiles := ''heap''\<rparr>" and a = "''host''" and u = ?u and m = ?m4
      and E = env1 and sched = "fair_schedule 1" and ini = world0]
  have d: "fst (main env1 [''-profiles'', ''heap'', ''host''] (fair_schedule 1) world0) = Some 0"
    by simp
  from p5 r5 main_exit_codes [where args = "[''-profiles'', ''block'', ''host'']"
      and fs = "flags0\<lparr>fs_profiles := ''block''\<rparr>" and a = "''host''" and u = ?u and m = ?m5
      and err = "ErrorNew ''no profiles written''"
      and E = env1 and sched = "fair_schedule 1" and ini = world0]
  have e: "fst (main env1 [''-profiles'', ''block'', ''host''] (fair_schedule 1) world0) = Some 1"
    by simp
  from a b c d e show ?thesis by blast
qed

text \<open>
  C9, as stated, fails: a missing URL, two arguments and an undefined flag end the
  process with code 1, not 2, and without the usage text.
\<close>

theorem main_usage_errors_exit_1:
  "main env1 [] [] world0 = (Some 1, logf ''URL required'' world0)
   \<and> main env1 [''host'', ''extra''] [] world0 = (Some 1, logf ''too many arguments'' world0)
   \<and> main env1 [''-x'', ''host''] [] world0
       = (Some 1, logf ''flag provided but not defined: -x'' world0)"
  by (simp add: main_def ParseFlags_def Parse.simps parseOne_def flag_name_def flag_body_def
      formal_def flags0_def)

end
